(* ===== verification/Prelude.thy ===== *)
theory Prelude
  imports Main "HOL-Library.Sublist" "HOL-Library.Code_Target_Nat"
begin

section \<open>Prelude: bytes, shared lemmas and collections\<close>

text \<open>
  Types and generic facts the components share. A Rust byte slice (\<^verbatim>\<open>[u8]\<close>, \<^verbatim>\<open>Vec<u8>\<close>)
  and a Rust string (\<^verbatim>\<open>str\<close>, \<^verbatim>\<open>String\<close>: UTF-8 bytes) are both a list of \<open>char\<close>, which in
  HOL is a byte (0..255). Machine words of the 64-bit target (\<^verbatim>\<open>usize\<close>, \<^verbatim>\<open>u64\<close>) are \<open>nat\<close>
  with the checks and the wrap-around written out against \<open>word_modulus\<close>.
\<close>

type_synonym byte = char
type_synonym bytes = "char list"

abbreviation LF :: byte where "LF \<equiv> CHR 0x0A"
abbreviation CR :: byte where "CR \<equiv> CHR 0x0D"
abbreviation CRLF :: bytes where "CRLF \<equiv> [CR, LF]"

definition code :: "byte \<Rightarrow> nat" where
  "code b = of_char b"

lemma code_less [simp]: "code b < 256"
  by (simp add: code_def)

lemma code_eq_iff [simp]: "code a = code b \<longleftrightarrow> a = b"
  by (simp add: code_def)

definition word_modulus :: nat where
  "word_modulus = 2 ^ 64"

text \<open>The release profile of the program wraps machine additions and products.\<close>

definition wrapping_add :: "nat \<Rightarrow> nat \<Rightarrow> nat" where
  "wrapping_add a b = (a + b) mod word_modulus"

definition wrapping_mul :: "nat \<Rightarrow> nat \<Rightarrow> nat" where
  "wrapping_mul a b = (a * b) mod word_modulus"

lemma wrapping_add_small: "a + b < word_modulus \<Longrightarrow> wrapping_add a b = a + b"
  by (simp add: wrapping_add_def)

lemma wrapping_mul_small: "a * b < word_modulus \<Longrightarrow> wrapping_mul a b = a * b"
  by (simp add: wrapping_mul_def)

named_theorems io_ops \<open>equations of the stream operations on their branches\<close>

subsection \<open>Splitting a list at its first separator\<close>

text \<open>Reading up to a delimiter, \<^verbatim>\<open>lines\<close> and \<^verbatim>\<open>split\<close> all cut a list at the first
  occurrence of one element; these are the facts their proofs share.\<close>

lemma takeWhile_neq_all [simp]: "x \<notin> set xs \<Longrightarrow> takeWhile (\<lambda>y. y \<noteq> x) xs = xs"
  by (induction xs) auto

lemma dropWhile_neq_all [simp]: "x \<notin> set xs \<Longrightarrow> dropWhile (\<lambda>y. y \<noteq> x) xs = []"
  by (induction xs) auto

lemma takeWhile_neq_skip [simp]:
  "x \<notin> set xs \<Longrightarrow> takeWhile (\<lambda>y. y \<noteq> x) (xs @ ys) = xs @ takeWhile (\<lambda>y. y \<noteq> x) ys"
  by (induction xs) auto

lemma dropWhile_neq_skip [simp]:
  "x \<notin> set xs \<Longrightarrow> dropWhile (\<lambda>y. y \<noteq> x) (xs @ ys) = dropWhile (\<lambda>y. y \<noteq> x) ys"
  by (induction xs) auto

lemma notin_takeWhile_neq [simp]: "x \<notin> set (takeWhile (\<lambda>y. y \<noteq> x) xs)"
  by (auto dest: set_takeWhileD)

lemma first_split:
  assumes "x \<in> set xs"
  obtains ys zs where "xs = ys @ x # zs" and "x \<notin> set ys"
  using split_list_first [OF assms] by blast

lemma take_dropWhile_length:
  "dropWhile P xs = y # ys \<Longrightarrow> length ys < length xs"
  by (metis length_Cons length_dropWhile_le less_eq_Suc_le)

lemma drop_append_exact [simp]: "n = length xs \<Longrightarrow> drop n (xs @ ys) = ys"
  by simp

lemma take_append_exact [simp]: "n = length xs \<Longrightarrow> take n (xs @ ys) = xs"
  by simp

lemma prefix_take_take: "i \<le> j \<Longrightarrow> prefix (take i xs) (take j xs)"
  by (metis min.absorb1 take_is_prefix take_take)

lemma single_split: "[x] = as @ y # bs \<longleftrightarrow> as = [] \<and> y = x \<and> bs = []"
  by (cases as) auto

lemma take_min_length [simp]: "take (min (length xs) i) xs = take i xs"
  by (simp add: min_def)

lemma span_first:
  assumes "list_all P xs" and "\<not> P y"
  shows "takeWhile P (xs @ y # ys) = xs" and "dropWhile P (xs @ y # ys) = y # ys"
  using assms by (induction xs) auto

lemma count_list_dropWhile: "count_list (dropWhile P xs) y \<le> count_list xs y"
  by (induction xs) (auto intro: le_SucI)

lemma count_list_tl: "count_list (tl xs) y \<le> count_list xs y"
  by (cases xs) simp_all

definition alphanumeric :: "byte \<Rightarrow> bool" where
  "alphanumeric b \<longleftrightarrow>
     48 \<le> code b \<and> code b \<le> 57 \<or> 65 \<le> code b \<and> code b \<le> 90 \<or> 97 \<le> code b \<and> code b \<le> 122"

end
