(* ===== verification/Utf8.thy ===== *)
theory Utf8
  imports Prelude
begin

section \<open>UTF-8 decoding as the standard library does it\<close>

text \<open>
  \<^verbatim>\<open>String::from_utf8_lossy\<close> and \<^verbatim>\<open>str::from_utf8\<close> decide what the proxy sees of the bytes
  the origin sends. \<open>utf8_step\<close> is one round of the decoder loop: whether the next
  sequence is valid, and how many bytes it consumes (for an invalid one, the maximal prefix that
  is replaced by one U+FFFD). A position past the end reads as 0, as the library's
  \<^verbatim>\<open>safe_get\<close> does.
\<close>

definition safe_get :: "bytes \<Rightarrow> nat \<Rightarrow> nat" where
  "safe_get bs i = (if i < length bs then code (bs ! i) else 0)"

definition is_cont :: "nat \<Rightarrow> bool" where
  "is_cont v \<longleftrightarrow> 0x80 \<le> v \<and> v < 0xC0"

definition second3 :: "nat \<Rightarrow> nat \<Rightarrow> bool" where
  "second3 w x \<longleftrightarrow>
     (if w = 0xE0 then 0xA0 \<le> x \<and> x \<le> 0xBF
      else if w = 0xED then 0x80 \<le> x \<and> x \<le> 0x9F
      else is_cont x)"

definition second4 :: "nat \<Rightarrow> nat \<Rightarrow> bool" where
  "second4 w x \<longleftrightarrow>
     (if w = 0xF0 then 0x90 \<le> x \<and> x \<le> 0xBF
      else if w = 0xF4 then 0x80 \<le> x \<and> x \<le> 0x8F
      else is_cont x)"

definition utf8_classify :: "nat \<Rightarrow> nat \<Rightarrow> nat \<Rightarrow> nat \<Rightarrow> bool \<times> nat" where
  "utf8_classify w x y z =
     (if w < 0x80 then (True, 1)
      else if 0xC2 \<le> w \<and> w \<le> 0xDF then (if is_cont x then (True, 2) else (False, 1))
      else if 0xE0 \<le> w \<and> w \<le> 0xEF then
        (if \<not> second3 w x then (False, 1)
         else if \<not> is_cont y then (False, 2)
         else (True, 3))
      else if 0xF0 \<le> w \<and> w \<le> 0xF4 then
        (if \<not> second4 w x then (False, 1)
         else if \<not> is_cont y then (False, 2)
         else if \<not> is_cont z then (False, 3)
         else (True, 4))
      else (False, 1))"

definition utf8_step :: "bytes \<Rightarrow> bool \<times> nat" where
  "utf8_step s =
     utf8_classify (safe_get s 0) (safe_get s 1) (safe_get s 2) (safe_get s 3)"

definition replacement :: bytes where
  "replacement = [CHR 0xEF, CHR 0xBF, CHR 0xBD]"

lemma utf8_step_pos: "0 < snd (utf8_step s)"
  by (simp add: utf8_step_def utf8_classify_def)

lemma second_is_cont: "second3 w x \<Longrightarrow> is_cont x" "second4 w x \<Longrightarrow> is_cont x"
  by (auto simp: second3_def second4_def is_cont_def split: if_splits)

lemma utf8_step_pos_pair: "(ok, n) = utf8_step s \<Longrightarrow> 0 < n"
  by (metis snd_conv utf8_step_pos)

lemma safe_get_cont: "is_cont (safe_get s i) \<Longrightarrow> i < length s"
  by (auto simp: safe_get_def is_cont_def split: if_splits)

lemma classify_snd_le:
  assumes "1 \<le> n" and "is_cont x \<Longrightarrow> 2 \<le> n" and "is_cont y \<Longrightarrow> 3 \<le> n"
    and "is_cont z \<Longrightarrow> 4 \<le> n"
  shows "snd (utf8_classify w x y z) \<le> n"
  using assms second_is_cont [of w x] by (simp add: utf8_classify_def)

text \<open>Past the first byte that is not a continuation, the classification looks no further.\<close>

lemma classify_stops1:
  assumes "\<not> is_cont x" and "\<not> is_cont x'"
  shows "utf8_classify w x y z = utf8_classify w x' y' z'"
proof -
  from assms have "\<not> second3 w x" "\<not> second4 w x" "\<not> second3 w x'" "\<not> second4 w x'"
    by (blast dest: second_is_cont)+
  with assms show ?thesis by (simp add: utf8_classify_def)
qed

lemma classify_stops2:
  "\<not> is_cont y \<Longrightarrow> \<not> is_cont y' \<Longrightarrow> utf8_classify w x y z = utf8_classify w x y' z'"
  by (simp add: utf8_classify_def)

lemma classify_stops3:
  "\<not> is_cont z \<Longrightarrow> \<not> is_cont z' \<Longrightarrow> utf8_classify w x y z = utf8_classify w x y z'"
  by (simp add: utf8_classify_def)

text \<open>A sequence never reaches past the end of the input.\<close>

lemma utf8_step_le: "s \<noteq> [] \<Longrightarrow> snd (utf8_step s) \<le> length s"
  unfolding utf8_step_def
  by (rule classify_snd_le) (auto dest: safe_get_cont simp: Suc_le_eq)

function from_utf8_lossy :: "bytes \<Rightarrow> bytes" where
  "from_utf8_lossy s =
     (if s = [] then []
      else (case utf8_step s of (ok, n) \<Rightarrow>
        (if ok then take n s else replacement) @ from_utf8_lossy (drop n s)))"
  by pat_completeness auto
termination
  by (relation "measure length") (auto dest: utf8_step_pos_pair)

declare from_utf8_lossy.simps [simp del]

function utf8_valid :: "bytes \<Rightarrow> bool" where
  "utf8_valid s =
     (if s = [] then True
      else (case utf8_step s of (ok, n) \<Rightarrow> ok \<and> utf8_valid (drop n s)))"
  by pat_completeness auto
termination
  by (relation "measure length") (auto dest: utf8_step_pos_pair)

declare utf8_valid.simps [simp del]

text \<open>\<^verbatim>\<open>str::from_utf8\<close> accepts exactly the valid sequences and changes nothing.\<close>

definition str_from_utf8 :: "bytes \<Rightarrow> bytes option" where
  "str_from_utf8 s = (if utf8_valid s then Some s else None)"

lemma lossy_Nil [simp]: "from_utf8_lossy [] = []"
  by (simp add: from_utf8_lossy.simps)

lemma utf8_valid_Nil [simp]: "utf8_valid []"
  by (simp add: utf8_valid.simps)

lemma lossy_step:
  "s \<noteq> [] \<Longrightarrow> from_utf8_lossy s =
     (if fst (utf8_step s) then take (snd (utf8_step s)) s else replacement)
       @ from_utf8_lossy (drop (snd (utf8_step s)) s)"
  by (subst from_utf8_lossy.simps) (simp add: case_prod_unfold)

lemma utf8_valid_step:
  "s \<noteq> [] \<Longrightarrow> utf8_valid s \<longleftrightarrow>
     fst (utf8_step s) \<and> utf8_valid (drop (snd (utf8_step s)) s)"
  by (subst utf8_valid.simps) (simp add: case_prod_unfold)

text \<open>Recursion over the sequences of a string, the induction every UTF-8 fact uses.\<close>

lemma utf8_induct [case_names Nil Seq]:
  assumes "P []"
    and "\<And>s. s \<noteq> [] \<Longrightarrow> P (drop (snd (utf8_step s)) s) \<Longrightarrow> P s"
  shows "P s"
proof (induction s rule: length_induct)
  case (1 s)
  show ?case
  proof (cases "s = []")
    case False
    then have "length (drop (snd (utf8_step s)) s) < length s"
      using utf8_step_pos [of s] by simp
    with 1 False assms(2) show ?thesis by blast
  qed (simp add: assms(1))
qed

subsection \<open>ASCII bytes are boundaries\<close>

definition ascii :: "byte \<Rightarrow> bool" where
  "ascii b \<longleftrightarrow> code b < 0x80"

lemma utf8_step_ascii: "ascii a \<Longrightarrow> utf8_step (a # s) = (True, 1)"
  by (simp add: utf8_step_def utf8_classify_def ascii_def safe_get_def)

lemma lossy_ascii [simp]: "ascii a \<Longrightarrow> from_utf8_lossy (a # s) = a # from_utf8_lossy s"
  by (subst lossy_step) (simp_all add: utf8_step_ascii)

lemma utf8_valid_ascii [simp]: "ascii a \<Longrightarrow> utf8_valid (a # s) = utf8_valid s"
  by (subst utf8_valid_step) (simp_all add: utf8_step_ascii)

lemma safe_get_append:
  "i < length s \<Longrightarrow> safe_get (s @ a # t) i = safe_get s i"
  "i = length s \<Longrightarrow> safe_get (s @ a # t) i = code a"
  by (simp_all add: safe_get_def nth_append)

lemma safe_get_beyond: "length s \<le> i \<Longrightarrow> safe_get s i = 0"
  by (simp add: safe_get_def)

text \<open>A sequence cut off by an ASCII byte is classified as one cut off by the end.\<close>

lemma utf8_step_ascii_right:
  assumes a: "ascii a" and s: "s \<noteq> []"
  shows "utf8_step (s @ a # t) = utf8_step s"
proof -
  have na: "\<not> is_cont (code a)" "\<not> is_cont 0"
    using a by (auto simp: ascii_def is_cont_def)
  from s have "length s \<noteq> 0" by simp
  then have "length s = 1 \<or> length s = 2 \<or> length s = 3 \<or> 4 \<le> length s"
    by arith
  then consider "length s = 1" | "length s = 2" | "length s = 3" | "4 \<le> length s"
    by blast
  then show ?thesis
  proof cases
    case 1
    then show ?thesis
      unfolding utf8_step_def
      by (simp add: safe_get_append safe_get_beyond classify_stops1 [OF na])
  next
    case 2
    then show ?thesis
      unfolding utf8_step_def
      by (simp add: safe_get_append safe_get_beyond classify_stops2 [OF na])
  next
    case 3
    then show ?thesis
      unfolding utf8_step_def
      by (simp add: safe_get_append safe_get_beyond classify_stops3 [OF na])
  qed (simp add: utf8_step_def safe_get_append s)
qed

lemma lossy_ascii_split:
  "ascii a \<Longrightarrow> from_utf8_lossy (s @ a # t) = from_utf8_lossy s @ a # from_utf8_lossy t"
proof (induction s rule: utf8_induct)
  case (Seq s)
  then show ?case
    using utf8_step_le [OF Seq.hyps]
    by (subst lossy_step, simp, subst (2) lossy_step, simp)
       (simp add: utf8_step_ascii_right)
qed simp

lemma utf8_valid_ascii_split:
  "ascii a \<Longrightarrow> utf8_valid (s @ a # t) \<longleftrightarrow> utf8_valid s \<and> utf8_valid t"
proof (induction s rule: utf8_induct)
  case (Seq s)
  then show ?case
    using utf8_step_le [OF Seq.hyps]
    by (subst utf8_valid_step, simp, subst (2) utf8_valid_step, simp)
       (simp add: utf8_step_ascii_right)
qed simp

subsection \<open>Lossy decoding is the identity on valid text and always gives valid text\<close>

lemma lossy_valid: "utf8_valid s \<Longrightarrow> from_utf8_lossy s = s"
proof (induction s rule: utf8_induct)
  case (Seq s)
  then show ?case
    by (subst lossy_step) (simp_all add: utf8_valid_step)
qed simp

text \<open>A valid sequence is recognised whatever follows it.\<close>

lemma utf8_step_append:
  assumes "fst (utf8_step s)" and "s \<noteq> []"
  shows "utf8_step (take (snd (utf8_step s)) s @ t) = utf8_step s"
proof -
  define n where "n = snd (utf8_step s)"
  have le: "n \<le> length s"
    unfolding n_def by (rule utf8_step_le [OF assms(2)])
  have get: "safe_get (take n s @ t) i = safe_get s i" if "i < n" for i
    using that le by (simp add: safe_get_def nth_append)
  consider "n = 1" "safe_get s 0 < 0x80" | "n = 2" | "n = 3" | "n = 4"
    using assms(1)
    by (auto simp: n_def utf8_step_def utf8_classify_def split: if_splits)
  then show ?thesis
    using assms(1) get
    unfolding n_def [symmetric]
    by cases (auto simp: n_def utf8_step_def utf8_classify_def split: if_splits)
qed

lemma replacement_step: "utf8_step (replacement @ t) = (True, 3)"
  by (simp add: utf8_step_def utf8_classify_def replacement_def safe_get_def code_def
      second3_def is_cont_def)

lemma utf8_valid_lossy [simp]: "utf8_valid (from_utf8_lossy s)"
proof (induction s rule: utf8_induct)
  case (Seq s)
  let ?n = "snd (utf8_step s)" and ?r = "from_utf8_lossy (drop (snd (utf8_step s)) s)"
  show ?case
  proof (cases "fst (utf8_step s)")
    case True
    with Seq.hyps have e: "from_utf8_lossy s = take ?n s @ ?r"
      by (simp add: lossy_step)
    have "take ?n s @ ?r \<noteq> []" "length (take ?n s) = ?n"
      using Seq.hyps utf8_step_pos [of s] utf8_step_le [OF Seq.hyps] by auto
    with True Seq show ?thesis
      by (simp only: e) (simp add: utf8_valid_step utf8_step_append)
  next
    case False
    with Seq.hyps have e: "from_utf8_lossy s = replacement @ ?r"
      by (simp add: lossy_step)
    have "replacement @ ?r \<noteq> []" "length replacement = 3"
      by (simp_all add: replacement_def)
    with Seq.IH show ?thesis
      by (simp only: e) (simp add: utf8_valid_step replacement_step)
  qed
qed simp

lemma lossy_idem [simp]: "from_utf8_lossy (from_utf8_lossy s) = from_utf8_lossy s"
  by (rule lossy_valid) simp

lemma lossy_Nil_iff [simp]: "from_utf8_lossy s = [] \<longleftrightarrow> s = []"
  using utf8_step_pos [of s]
  by (cases "s = []") (auto simp: lossy_step replacement_def)

lemma utf8_valid_all_ascii: "list_all ascii s \<Longrightarrow> utf8_valid s"
  by (induction s) auto

lemma set_lossy: "b \<in> set (from_utf8_lossy s) \<Longrightarrow> b \<in> set s \<or> b \<in> set replacement"
proof (induction s rule: utf8_induct)
  case (Seq s)
  then show ?case
    by (subst (asm) lossy_step) (auto split: if_splits dest: in_set_takeD in_set_dropD)
qed simp

lemma LF_lossy [simp]: "LF \<in> set (from_utf8_lossy s) \<longleftrightarrow> LF \<in> set s"
proof
  assume "LF \<in> set s"
  then obtain a b where "s = a @ LF # b" by (rule first_split)
  then show "LF \<in> set (from_utf8_lossy s)"
    using lossy_ascii_split [of LF a b] by (simp add: ascii_def code_def)
qed (auto dest: set_lossy simp: replacement_def)

lemma lossy_single: "ascii a \<Longrightarrow> from_utf8_lossy s = [a] \<longleftrightarrow> s = [a]"
proof
  assume a: "ascii a" and e: "from_utf8_lossy s = [a]"
  then have s: "s \<noteq> []" by auto
  let ?n = "snd (utf8_step s)"
  show "s = [a]"
  proof (cases "fst (utf8_step s)")
    case True
    with e s have t: "take ?n s @ from_utf8_lossy (drop ?n s) = [a]" by (simp add: lossy_step)
    moreover have "take ?n s \<noteq> []" using s utf8_step_pos [of s] by simp
    ultimately have "take ?n s = [a]" "drop ?n s = []" by (auto simp: append_eq_Cons_conv)
    then show ?thesis by (metis append_take_drop_id append_Nil2)
  next
    case False
    with e s show ?thesis by (simp add: lossy_step replacement_def)
  qed
qed simp

lemma lossy_ascii_append: "list_all ascii a \<Longrightarrow> from_utf8_lossy (a @ s) = a @ from_utf8_lossy s"
  by (induction a) simp_all

end
