(* ===== verification/RustStr.thy ===== *)
theory RustStr
  imports Utf8
begin

section \<open>The string functions of the standard library the program uses\<close>

text \<open>
  \<^verbatim>\<open>lines\<close>, \<^verbatim>\<open>split\<close>, \<^verbatim>\<open>trim\<close>, \<^verbatim>\<open>to_lowercase\<close>, \<^verbatim>\<open>to_uppercase\<close>, \<^verbatim>\<open>starts_with\<close>,
  \<^verbatim>\<open>contains\<close> and \<^verbatim>\<open>replace\<close> on UTF-8 text. A pattern that is valid UTF-8 only matches at
  character boundaries of valid text, so matching bytes is matching characters.
\<close>

subsection \<open>Searching\<close>

definition starts_with :: "bytes \<Rightarrow> bytes \<Rightarrow> bool" where
  "starts_with s pat \<longleftrightarrow> take (length pat) s = pat"

fun contains :: "bytes \<Rightarrow> bytes \<Rightarrow> bool" where
  "contains [] pat \<longleftrightarrow> pat = []"
| "contains (b # s) pat \<longleftrightarrow> starts_with (b # s) pat \<or> contains s pat"

lemma starts_with_prefix: "starts_with s pat \<longleftrightarrow> prefix pat s"
  by (metis append_eq_conv_conj append_take_drop_id prefix_def starts_with_def)

lemma starts_with_append [simp]: "starts_with (pat @ s) pat"
  by (simp add: starts_with_def)

lemma contains_sublist: "contains s pat \<longleftrightarrow> sublist pat s"
  by (induction s) (auto simp: starts_with_prefix sublist_Cons_right)

subsection \<open>Lines and fields\<close>

text \<open>
  \<^verbatim>\<open>lines\<close> ends each line at a line feed, which it drops together with one carriage return
  before it; a last piece with no line feed is a line as it is.
\<close>

definition strip_cr :: "bytes \<Rightarrow> bytes" where
  "strip_cr l = (if l \<noteq> [] \<and> last l = CR then butlast l else l)"

function lines :: "bytes \<Rightarrow> bytes list" where
  "lines s =
     (if s = [] then []
      else (case dropWhile (\<lambda>b. b \<noteq> LF) s of
              [] \<Rightarrow> [s]
            | _ # rest \<Rightarrow> strip_cr (takeWhile (\<lambda>b. b \<noteq> LF) s) # lines rest))"
  by pat_completeness auto
termination
  by (relation "measure length") (auto intro: take_dropWhile_length)

declare lines.simps [simp del]

lemma lines_Nil [simp]: "lines [] = []"
  by (simp add: lines.simps)

lemma lines_line: "LF \<notin> set l \<Longrightarrow> lines (l @ LF # s) = strip_cr l # lines s"
  by (subst lines.simps) simp

lemma lines_last: "LF \<notin> set l \<Longrightarrow> l \<noteq> [] \<Longrightarrow> lines l = [l]"
  by (subst lines.simps) simp

lemma lines_CRLF [simp]: "LF \<notin> set l \<Longrightarrow> lines (l @ CR # LF # s) = l # lines s"
  using lines_line [of "l @ [CR]" s] by (simp add: strip_cr_def)

text \<open>Recursion over the lines of a text.\<close>

lemma lines_induct [case_names Nil Last Line]:
  assumes "P []"
    and "\<And>l. LF \<notin> set l \<Longrightarrow> l \<noteq> [] \<Longrightarrow> P l"
    and "\<And>l s. LF \<notin> set l \<Longrightarrow> P s \<Longrightarrow> P (l @ LF # s)"
  shows "P s"
proof (induction s rule: length_induct)
  case (1 s)
  show ?case
  proof (cases "LF \<in> set s")
    case True
    then obtain l t where s: "s = l @ LF # t" and l: "LF \<notin> set l"
      by (rule first_split)
    with 1 have "P t" by simp
    with s l assms(3) show ?thesis by blast
  next
    case False
    with assms(1,2) show ?thesis by (cases "s = []") auto
  qed
qed

text \<open>\<^verbatim>\<open>split\<close> at every occurrence of one byte, and the \<^verbatim>\<open>nth(1)\<close> of its pieces.\<close>

function split_on :: "byte \<Rightarrow> bytes \<Rightarrow> bytes list" where
  "split_on b s =
     (case dropWhile (\<lambda>x. x \<noteq> b) s of
        [] \<Rightarrow> [s]
      | _ # rest \<Rightarrow> takeWhile (\<lambda>x. x \<noteq> b) s # split_on b rest)"
  by pat_completeness auto
termination
  by (relation "measure (\<lambda>(b, s). length s)") (auto intro: take_dropWhile_length)

declare split_on.simps [simp del]

lemma split_on_none: "b \<notin> set s \<Longrightarrow> split_on b s = [s]"
  by (subst split_on.simps) simp

lemma split_on_first: "b \<notin> set l \<Longrightarrow> split_on b (l @ b # s) = l # split_on b s"
  by (subst split_on.simps) simp

definition nth_piece :: "nat \<Rightarrow> bytes list \<Rightarrow> bytes option" where
  "nth_piece i ps = (if i < length ps then Some (ps ! i) else None)"

text \<open>The second piece: what stands between the first separator and the next.\<close>

lemma nth_piece_1:
  "nth_piece 1 (split_on b s) =
     (case dropWhile (\<lambda>x. x \<noteq> b) s of
        [] \<Rightarrow> None
      | _ # r \<Rightarrow> Some (takeWhile (\<lambda>x. x \<noteq> b) r))"
proof -
  have hd: "split_on b r \<noteq> [] \<and> hd (split_on b r) = takeWhile (\<lambda>x. x \<noteq> b) r" for r
    by (cases "b \<in> set r") (auto simp: split_on_none split_on_first elim!: first_split)
  then have hd: "0 < length (split_on b r) \<and> split_on b r ! 0 = takeWhile (\<lambda>x. x \<noteq> b) r" for r
    by (metis hd_conv_nth length_greater_0_conv)
  show ?thesis
  proof (cases "b \<in> set s")
    case True
    then obtain p q where "s = p @ b # q" "b \<notin> set p" by (rule first_split)
    with hd [of q] show ?thesis by (simp add: split_on_first nth_piece_def)
  qed (simp add: split_on_none nth_piece_def)
qed

subsection \<open>Case conversion\<close>

text \<open>
  \<^verbatim>\<open>to_lowercase\<close> maps A-Z and, of the characters past ASCII, U+212A (Kelvin sign) to
  \<^verbatim>\<open>k\<close> and U+0130 (dotted capital I) to \<^verbatim>\<open>i\<close> with a combining dot. The lower case of any other
  character past ASCII has no ASCII character in it and is no white space unless the character
  is; the program only compares lowered text with ASCII patterns and trims it, so those
  characters are kept as they are here.
\<close>

definition lower_ascii :: "byte \<Rightarrow> byte" where
  "lower_ascii b = (if 0x41 \<le> code b \<and> code b \<le> 0x5A then char_of (code b + 0x20) else b)"

definition upper_ascii :: "byte \<Rightarrow> byte" where
  "upper_ascii b = (if 0x61 \<le> code b \<and> code b \<le> 0x7A then char_of (code b - 0x20) else b)"

fun to_lowercase :: "bytes \<Rightarrow> bytes" where
  "to_lowercase [] = []"
| "to_lowercase (b # s) =
     (if b = CHR 0xE2 \<and> starts_with s [CHR 0x84, CHR 0xAA]
      then CHR ''k'' # to_lowercase (drop 2 s)
      else if b = CHR 0xC4 \<and> starts_with s [CHR 0xB0]
      then CHR ''i'' # CHR 0xCC # CHR 0x87 # to_lowercase (drop 1 s)
      else lower_ascii b # to_lowercase s)"

text \<open>\<^verbatim>\<open>to_uppercase\<close> is only applied to header names, which are ASCII tokens.\<close>

definition to_uppercase :: "bytes \<Rightarrow> bytes" where
  "to_uppercase s = map upper_ascii s"

lemma lower_ascii_code: "code (lower_ascii b) =
    (if 0x41 \<le> code b \<and> code b \<le> 0x5A then code b + 0x20 else code b)"
  by (simp add: lower_ascii_def code_def)

lemma ascii_lower_ascii [simp]: "ascii (lower_ascii b) = ascii b"
  by (simp add: ascii_def lower_ascii_code)

lemma lower_ascii_idem [simp]: "lower_ascii (lower_ascii b) = lower_ascii b"
  by (subst code_eq_iff [symmetric]) (simp add: lower_ascii_code)

lemma to_lowercase_ascii: "list_all ascii s \<Longrightarrow> to_lowercase s = map lower_ascii s"
proof (induction s)
  case (Cons b s)
  then have "b \<noteq> CHR 0xE2" "b \<noteq> CHR 0xC4"
    by (auto simp: ascii_def code_def)
  with Cons show ?case by simp
qed simp

text \<open>The lowered text of an ASCII-led text is that of its head and its tail.\<close>

lemma to_lowercase_ascii_Cons:
  "ascii b \<Longrightarrow> to_lowercase (b # s) = lower_ascii b # to_lowercase s"
  by (auto simp: ascii_def code_def)

lemma to_lowercase_ascii_append:
  "list_all ascii s \<Longrightarrow> to_lowercase (s @ t) = map lower_ascii s @ to_lowercase t"
  by (induction s) (simp_all add: to_lowercase_ascii_Cons del: to_lowercase.simps(2))

subsection \<open>White space\<close>

text \<open>
  \<^verbatim>\<open>trim\<close> removes the characters of the Unicode property White_Space from both ends:
  U+0009..000D, 0020, 0085, 00A0, 1680, 2000..200A, 2028, 2029, 202F, 205F and 3000, here by
  their UTF-8 encodings.
\<close>

definition ws1 :: "byte \<Rightarrow> bool" where
  "ws1 b \<longleftrightarrow> (0x09 \<le> code b \<and> code b \<le> 0x0D) \<or> code b = 0x20"

definition ws2 :: "byte \<Rightarrow> byte \<Rightarrow> bool" where
  "ws2 a b \<longleftrightarrow> a = CHR 0xC2 \<and> (b = CHR 0x85 \<or> b = CHR 0xA0)"

definition ws3 :: "byte \<Rightarrow> byte \<Rightarrow> byte \<Rightarrow> bool" where
  "ws3 a b c \<longleftrightarrow>
     (a = CHR 0xE1 \<and> b = CHR 0x9A \<and> c = CHR 0x80)
   \<or> (a = CHR 0xE2 \<and> b = CHR 0x80 \<and>
        ((0x80 \<le> code c \<and> code c \<le> 0x8A) \<or> code c = 0xA8 \<or> code c = 0xA9 \<or> code c = 0xAF))
   \<or> (a = CHR 0xE2 \<and> b = CHR 0x81 \<and> c = CHR 0x9F)
   \<or> (a = CHR 0xE3 \<and> b = CHR 0x80 \<and> c = CHR 0x80)"

fun trim_start :: "bytes \<Rightarrow> bytes" where
  "trim_start (a # b # c # s) =
     (if ws1 a then trim_start (b # c # s)
      else if ws2 a b then trim_start (c # s)
      else if ws3 a b c then trim_start s
      else a # b # c # s)"
| "trim_start [a, b] = (if ws1 a then trim_start [b] else if ws2 a b then [] else [a, b])"
| "trim_start [a] = (if ws1 a then [] else [a])"
| "trim_start [] = []"

text \<open>The same from the end, on the reversed bytes.\<close>

fun trim_rev :: "bytes \<Rightarrow> bytes" where
  "trim_rev (a # b # c # s) =
     (if ws1 a then trim_rev (b # c # s)
      else if ws2 b a then trim_rev (c # s)
      else if ws3 c b a then trim_rev s
      else a # b # c # s)"
| "trim_rev [a, b] = (if ws1 a then trim_rev [b] else if ws2 b a then [] else [a, b])"
| "trim_rev [a] = (if ws1 a then [] else [a])"
| "trim_rev [] = []"

definition trim :: "bytes \<Rightarrow> bytes" where
  "trim s = rev (trim_rev (rev (trim_start s)))"

lemma ws_ascii: "ascii a \<Longrightarrow> \<not> ws2 a b" "ascii a \<Longrightarrow> \<not> ws2 b a" "ascii a \<Longrightarrow> \<not> ws3 a b c"
  "ascii a \<Longrightarrow> \<not> ws3 c b a"
  by (auto simp: ascii_def ws2_def ws3_def code_def)

lemma trim_start_ws1: "ws1 a \<Longrightarrow> trim_start (a # s) = trim_start s"
  by (cases "a # s" rule: trim_start.cases) auto

lemma trim_rev_ws1: "ws1 a \<Longrightarrow> trim_rev (a # s) = trim_rev s"
  by (cases "a # s" rule: trim_rev.cases) auto

lemma trim_start_stop: "ascii a \<Longrightarrow> \<not> ws1 a \<Longrightarrow> trim_start (a # s) = a # s"
  by (cases "a # s" rule: trim_start.cases) (auto simp: ws_ascii)

lemma trim_rev_stop: "ascii a \<Longrightarrow> \<not> ws1 a \<Longrightarrow> trim_rev (a # s) = a # s"
  by (cases "a # s" rule: trim_rev.cases) (auto simp: ws_ascii)

text \<open>A blank at the end makes no difference.\<close>

lemma ws1_ascii: "ws1 w \<Longrightarrow> ascii w"
  by (auto simp: ws1_def ascii_def)

lemma trim_start_snoc:
  "ws1 w \<Longrightarrow> trim_start (s @ [w]) = (if trim_start s = [] then [] else trim_start s @ [w])"
  by (induction s rule: trim_start.induct) (auto simp: ws_ascii ws1_ascii)

lemma trim_snoc: "ws1 w \<Longrightarrow> trim (s @ [w]) = trim s"
  by (simp add: trim_def trim_start_snoc trim_rev_ws1)

text \<open>Trimming a token of plain ASCII between blanks leaves the token.\<close>

definition token :: "bytes \<Rightarrow> bool" where
  "token s \<longleftrightarrow> s \<noteq> [] \<and> list_all (\<lambda>b. ascii b \<and> \<not> ws1 b) s"

lemma trim_start_blanks:
  "list_all ws1 p \<Longrightarrow> token s \<Longrightarrow> trim_start (p @ s @ t) = s @ t"
  by (induction p) (auto simp: trim_start_ws1 token_def neq_Nil_conv trim_start_stop)

lemma trim_rev_blanks:
  "list_all ws1 q \<Longrightarrow> token s \<Longrightarrow> trim_rev (q @ s) = s"
  by (induction q) (auto simp: trim_rev_ws1 token_def neq_Nil_conv trim_rev_stop)

lemma trim_token:
  assumes "list_all ws1 p" and "token s" and "list_all ws1 q"
  shows "trim (p @ s @ q) = s"
  using assms trim_rev_blanks [of "rev q" "rev s"]
  by (simp add: trim_def trim_start_blanks token_def)

subsection \<open>Replacing\<close>

text \<open>
  \<^verbatim>\<open>replace\<close> scans left to right for non-overlapping occurrences. An empty pattern occurs
  at every character boundary.
\<close>

function replace_nonempty :: "bytes \<Rightarrow> bytes \<Rightarrow> bytes \<Rightarrow> bytes" where
  "replace_nonempty pat to [] = []"
| "replace_nonempty pat to (b # s) =
     (if pat \<noteq> [] \<and> starts_with (b # s) pat
      then to @ replace_nonempty pat to (drop (length pat) (b # s))
      else b # replace_nonempty pat to s)"
  by pat_completeness auto
termination
  by (relation "measure (\<lambda>(pat, to, s). length s)") auto

definition str_replace :: "bytes \<Rightarrow> bytes \<Rightarrow> bytes \<Rightarrow> bytes" where
  "str_replace s pat to =
     (if pat = [] then concat (map (\<lambda>b. if is_cont (code b) then [b] else to @ [b]) s) @ to
      else replace_nonempty pat to s)"

text \<open>The pieces between the replaced occurrences: the text is the pieces joined by the
  pattern, the result the pieces joined by the replacement.\<close>

fun join :: "bytes \<Rightarrow> bytes list \<Rightarrow> bytes" where
  "join sep [] = []"
| "join sep [p] = p"
| "join sep (p # q # ps) = p @ sep @ join sep (q # ps)"

lemma join_Cons: "ps \<noteq> [] \<Longrightarrow> join sep (p # ps) = p @ sep @ join sep ps"
  by (cases ps) auto

lemma join_first: "ps \<noteq> [] \<Longrightarrow> join sep ((b # hd ps) # tl ps) = b # join sep ps"
  by (cases ps; cases "tl ps") auto

function pieces :: "bytes \<Rightarrow> bytes \<Rightarrow> bytes list" where
  "pieces pat [] = [[]]"
| "pieces pat (b # s) =
     (if pat \<noteq> [] \<and> starts_with (b # s) pat
      then [] # pieces pat (drop (length pat) (b # s))
      else (b # hd (pieces pat s)) # tl (pieces pat s))"
  by pat_completeness auto
termination
  by (relation "measure (\<lambda>(pat, s). length s)") auto

lemma pieces_nonempty [simp]: "pieces pat s \<noteq> []"
  by (cases s) auto

lemma join_pieces: "join pat (pieces pat s) = s"
proof (induction pat s rule: pieces.induct)
  case (2 pat b s)
  show ?case
  proof (cases "pat \<noteq> [] \<and> starts_with (b # s) pat")
    case True
    then have "pat @ drop (length pat) (b # s) = b # s"
      by (metis append_take_drop_id starts_with_def)
    with True 2 show ?thesis by (simp add: join_Cons)
  next
    case False
    with 2 show ?thesis by (auto simp: join_first)
  qed
qed simp

lemma replace_pieces: "replace_nonempty pat to s = join to (pieces pat s)"
proof (induction pat to s rule: replace_nonempty.induct)
  case (2 pat to b s)
  then show ?case
    by (cases "pat \<noteq> [] \<and> starts_with (b # s) pat") (auto simp: join_first join_Cons)
qed simp

text \<open>No occurrence of the pattern is left inside a piece.\<close>

lemma pieces_prefix: "prefix (hd (pieces pat s)) s"
proof -
  obtain p ps where "pieces pat s = p # ps" by (cases "pieces pat s") auto
  with join_pieces [of pat s] show ?thesis by (cases ps) auto
qed

lemma pieces_free:
  "pat \<noteq> [] \<Longrightarrow> p \<in> set (pieces pat s) \<Longrightarrow> \<not> contains p pat"
proof (induction pat s arbitrary: p rule: pieces.induct)
  case (2 pat b s)
  show ?case
  proof (cases "starts_with (b # s) pat")
    case True
    with 2 show ?thesis by auto
  next
    case False
    have "prefix (b # hd (pieces pat s)) (b # s)" using pieces_prefix by simp
    with False have "\<not> starts_with (b # hd (pieces pat s)) pat"
      unfolding starts_with_prefix using prefix_order.trans by blast
    moreover have "hd (pieces pat s) \<in> set (pieces pat s)" by simp
    ultimately show ?thesis
      using False 2 by (auto dest: list.set_sel(2) [OF pieces_nonempty])
  qed
qed simp

lemma replace_none: "\<not> contains s pat \<Longrightarrow> replace_nonempty pat to s = s"
  by (induction s) auto

lemma replace_self: "replace_nonempty pat pat s = s"
  by (simp add: replace_pieces join_pieces)

lemma length_join:
  "ps \<noteq> [] \<Longrightarrow> length (join sep ps) = sum_list (map length ps) + (length ps - 1) * length sep"
  by (induction sep ps rule: join.induct) auto

end
