(* ===== verification/RustNum.thy ===== *)
theory RustNum
  imports RustStr
begin

section \<open>Parsing and printing machine integers\<close>

text \<open>
  \<^verbatim>\<open>usize::from_str_radix\<close> and \<^verbatim>\<open>str::parse::<usize>\<close> (an optional plus sign, then digits,
  every multiplication and addition checked against the 64-bit range), and the \<^verbatim>\<open>{}\<close> and
  \<^verbatim>\<open>{:x}\<close> formats. The locale \<open>radix_codec\<close> states what a digit alphabet must satisfy and
  proves the round trip once; the decimal and the hexadecimal alphabet interpret it.
\<close>

definition to_digit :: "nat \<Rightarrow> byte \<Rightarrow> nat option" where
  "to_digit r b =
     (let d = (if 0x30 \<le> code b \<and> code b \<le> 0x39 then code b - 0x30
               else if 0x61 \<le> code b \<and> code b \<le> 0x7A then code b - 0x61 + 10
               else if 0x41 \<le> code b \<and> code b \<le> 0x5A then code b - 0x41 + 10
               else r)
      in if d < r then Some d else None)"

fun parse_digits :: "nat \<Rightarrow> nat \<Rightarrow> bytes \<Rightarrow> nat option" where
  "parse_digits r acc [] = Some acc"
| "parse_digits r acc (b # s) =
     (case to_digit r b of
        None \<Rightarrow> None
      | Some d \<Rightarrow>
          if acc * r < word_modulus \<and> acc * r + d < word_modulus
          then parse_digits r (acc * r + d) s
          else None)"

definition from_str_radix :: "nat \<Rightarrow> bytes \<Rightarrow> nat option" where
  "from_str_radix r s =
     (if s = [] \<or> s = ''+'' \<or> s = ''-'' then None
      else if hd s = CHR ''+'' then parse_digits r 0 (tl s)
      else parse_digits r 0 s)"

definition parse_usize :: "bytes \<Rightarrow> nat option" where
  "parse_usize s = from_str_radix 10 s"

definition digit_char :: "nat \<Rightarrow> byte" where
  "digit_char d = (if d < 10 then char_of (0x30 + d) else char_of (0x61 + (d - 10)))"

function format_radix :: "nat \<Rightarrow> nat \<Rightarrow> bytes" where
  "format_radix r n =
     (if n < r \<or> r < 2 then [digit_char n]
      else format_radix r (n div r) @ [digit_char (n mod r)])"
  by pat_completeness auto
termination
  by (relation "measure (\<lambda>(r, n). n)") (auto simp: not_less)

declare format_radix.simps [simp del]

definition format_usize :: "nat \<Rightarrow> bytes" where
  "format_usize n = format_radix 10 n"

definition format_hex :: "nat \<Rightarrow> bytes" where
  "format_hex n = format_radix 16 n"

subsection \<open>Bounds\<close>

lemma parse_digits_bound:
  "acc < word_modulus \<Longrightarrow> parse_digits r acc s = Some n \<Longrightarrow> n < word_modulus"
  by (induction r acc s rule: parse_digits.induct) (auto split: option.splits if_splits)

lemma from_str_radix_bound: "from_str_radix r s = Some n \<Longrightarrow> n < word_modulus"
  by (auto simp: from_str_radix_def word_modulus_def dest: parse_digits_bound [rotated]
      split: if_splits)

subsection \<open>Digit characters\<close>

lemma code_char_of: "n < 256 \<Longrightarrow> code (char_of n) = n"
  by (simp add: code_def)

lemma code_digit_char:
  "d < 16 \<Longrightarrow> code (digit_char d) = (if d < 10 then 0x30 + d else 0x57 + d)"
  by (simp add: digit_char_def code_char_of)

lemma digit_char_values [simp]:
  "digit_char 0 = CHR ''0''" "digit_char (Suc 0) = CHR ''1''" "digit_char 2 = CHR ''2''"
  "digit_char 3 = CHR ''3''" "digit_char 4 = CHR ''4''" "digit_char 5 = CHR ''5''"
  "digit_char 6 = CHR ''6''" "digit_char 7 = CHR ''7''" "digit_char 8 = CHR ''8''"
  "digit_char 9 = CHR ''9''" "digit_char 10 = CHR ''a''" "digit_char 11 = CHR ''b''"
  "digit_char 12 = CHR ''c''" "digit_char 13 = CHR ''d''" "digit_char 14 = CHR ''e''"
  "digit_char 15 = CHR ''f''" "digit_char (Suc (Suc 0)) = CHR ''2''"
  by (simp_all only: code_eq_iff [symmetric], simp_all add: code_digit_char del: code_eq_iff)
    (simp_all add: code_def)

text \<open>No digit character is white space, a sign or a separator of the protocols.\<close>

lemma digit_char_plain:
  assumes "d < 16"
  shows "ascii (digit_char d)" "\<not> ws1 (digit_char d)" "digit_char d \<noteq> CHR ''+''"
    "digit_char d \<noteq> CHR ''-''" "digit_char d \<noteq> CHR '';''" "digit_char d \<noteq> CHR '' ''"
    "digit_char d \<noteq> CR" "digit_char d \<noteq> LF" "digit_char d \<noteq> CHR '':''"
    "lower_ascii (digit_char d) = digit_char d"
  using assms code_digit_char [OF assms]
  by (auto simp: ascii_def ws1_def code_def lower_ascii_def split: if_splits)

subsection \<open>Round trip over a digit alphabet\<close>

text \<open>The interface between the number formats and their parsers.\<close>

locale radix_codec =
  fixes r :: nat
  assumes radix_low: "2 \<le> r"
    and radix_high: "r \<le> 16"
    and digit_of_char: "d < r \<Longrightarrow> to_digit r (digit_char d) = Some d"
begin

lemma parse_digits_format:
  "n < word_modulus \<Longrightarrow> parse_digits r 0 (format_radix r n @ s) = parse_digits r n s"
proof (induction n arbitrary: s rule: less_induct)
  case (less n)
  show ?case
  proof (cases "n < r")
    case True
    with less.prems show ?thesis
      by (subst format_radix.simps) (simp add: digit_of_char)
  next
    case False
    with radix_low have "n div r < n" "n mod r < r" by simp_all
    moreover have "n div r * r + n mod r = n" by simp
    moreover have "n div r * r < word_modulus"
      using less.prems by (meson div_times_less_eq_dividend le_less_trans)
    ultimately show ?thesis
      using less False radix_low
      by (subst format_radix.simps) (simp add: digit_of_char)
  qed
qed

lemma format_digits: "b \<in> set (format_radix r n) \<Longrightarrow> \<exists>d < 16. b = digit_char d"
proof (induction n arbitrary: b rule: less_induct)
  case (less n)
  show ?case
  proof (cases "n < r")
    case True
    with less.prems have "b = digit_char n"
      by (subst (asm) format_radix.simps) simp
    with True radix_high show ?thesis by (intro exI [of _ n]) simp
  next
    case False
    with radix_low have s: "n div r < n" "n mod r < 16"
      using radix_high by (simp_all add: less_le_trans [OF mod_less_divisor])
    from False radix_low less.prems
    have "b \<in> set (format_radix r (n div r)) \<or> b = digit_char (n mod r)"
      by (subst (asm) format_radix.simps) auto
    with less.IH [OF s(1)] s(2) show ?thesis by blast
  qed
qed

lemma format_nonempty: "format_radix r n \<noteq> []"
  by (subst format_radix.simps) simp

lemma format_token: "token (format_radix r n)"
  using format_nonempty format_digits
  by (fastforce simp: token_def list_all_iff digit_char_plain)

lemma format_free:
  "CHR ''+'' \<notin> set (format_radix r n)" "CHR ''-'' \<notin> set (format_radix r n)"
  "CHR '';'' \<notin> set (format_radix r n)" "CHR '' '' \<notin> set (format_radix r n)"
  "CHR '':'' \<notin> set (format_radix r n)" "CR \<notin> set (format_radix r n)"
  "LF \<notin> set (format_radix r n)"
  using format_digits [of _ n] digit_char_plain by metis+

lemma format_not_single: "c \<notin> set (format_radix r n) \<Longrightarrow> format_radix r n \<noteq> [c]"
  by auto

lemma format_hd: "hd (format_radix r n) \<in> set (format_radix r n)"
  using format_nonempty by simp

lemma from_str_format:
  assumes "n < word_modulus"
  shows "from_str_radix r (format_radix r n) = Some n"
proof -
  have "hd (format_radix r n) \<noteq> CHR ''+''"
    using format_hd [of n] format_free(1) [of n] by metis
  with parse_digits_format [OF assms, of "[]"] show ?thesis
    by (simp add: from_str_radix_def format_nonempty format_not_single format_free)
qed

end

interpretation dec: radix_codec 10
  by unfold_locales
    (auto simp: to_digit_def code_digit_char Let_def)

interpretation hex: radix_codec 16
  by unfold_locales
    (auto simp: to_digit_def code_digit_char Let_def)

lemma parse_usize_format: "n < word_modulus \<Longrightarrow> parse_usize (format_usize n) = Some n"
  unfolding parse_usize_def format_usize_def by (rule dec.from_str_format)

lemma list_all_asciiD: "token s \<Longrightarrow> list_all ascii s"
  by (auto simp: token_def list_all_iff)

end
