(* ===== verification/ByteStream.thy ===== *)
theory ByteStream
  imports RustNum
begin

section \<open>One proxied connection: what the origin sends, what the client receives\<close>

text \<open>
  The response direction of a proxied connection reads the origin's socket through a
  \<^verbatim>\<open>BufReader\<close> and writes the client's socket. The state holds the segments the successive
  socket reads will deliver, how the stream ends (closed, reset, or still open with nothing more
  to read yet), the bytes written so far, and whether the client keeps reading: if not, how many
  more bytes it and the buffers before it take, and whether a write beyond them fails, because the
  client is gone, or waits for ever for space, because it only stalls. A computation stops early with
  an I/O error, with a panic, or because it waits, for bytes or for space (\<open>Suspended\<close>, where the task
  stays until something changes). The stream functions below follow tokio's documented contract of \<^verbatim>\<open>read\<close>,
  \<^verbatim>\<open>read_until\<close>, \<^verbatim>\<open>read_exact\<close>, \<^verbatim>\<open>write_all\<close> and \<^verbatim>\<open>copy\<close>.
\<close>

datatype error_kind = InvalidData | UnexpectedEof | ConnectionReset | BrokenPipe

datatype stop = IoError error_kind | Panicked | Suspended

datatype stream_end = Closed | Reset | Open

datatype limit = Leaves | Stalls

datatype receiver = Reads | Takes nat limit

record conn =
  segs :: "bytes list"
  fin :: stream_end
  out :: bytes
  room :: receiver

type_synonym 'a io = "conn \<Rightarrow> (stop + 'a) \<times> conn"

definition io_return :: "'a \<Rightarrow> 'a io" where
  "io_return x c = (Inr x, c)"

definition io_throw :: "stop \<Rightarrow> 'a io" where
  "io_throw e c = (Inl e, c)"

text \<open>The \<^verbatim>\<open>?\<close> operator: the first error ends the computation.\<close>

definition io_bind :: "'a io \<Rightarrow> ('a \<Rightarrow> 'b io) \<Rightarrow> 'b io" where
  "io_bind m f c = (case m c of (Inl e, c') \<Rightarrow> (Inl e, c') | (Inr x, c') \<Rightarrow> f x c')"

lemma io_bind_cong [fundef_cong]:
  "m c = m' c' \<Longrightarrow> (\<And>x c1. m' c' = (Inr x, c1) \<Longrightarrow> f x c1 = f' x c1) \<Longrightarrow>
   io_bind m f c = io_bind m' f' c'"
  by (auto simp: io_bind_def split: prod.split sum.split)

subsection \<open>Reading\<close>

text \<open>A read that finds no more bytes.\<close>

definition at_end :: "(stop + 'a) \<Rightarrow> 'a io" where
  "at_end r c =
     (case fin c of
        Closed \<Rightarrow> (r, c)
      | Reset \<Rightarrow> (Inl (IoError ConnectionReset), c)
      | Open \<Rightarrow> (Inl Suspended, c))"

fun take_some :: "nat \<Rightarrow> bytes list \<Rightarrow> bytes \<times> bytes list" where
  "take_some n [] = ([], [])"
| "take_some n (s # ss) = (if s = [] then take_some n ss else (take n s, drop n s # ss))"

text \<open>\<^verbatim>\<open>read\<close> into a buffer of \<open>n\<close> bytes: some of the next segment, nothing at the end.\<close>

definition read_some :: "nat \<Rightarrow> bytes io" where
  "read_some n c =
     (case take_some n (segs c) of (b, rest) \<Rightarrow>
        if b \<noteq> [] then (Inr b, c\<lparr>segs := rest\<rparr>) else at_end (Inr []) (c\<lparr>segs := rest\<rparr>))"

fun take_until_lf :: "bytes list \<Rightarrow> bytes \<times> bytes list \<times> bool" where
  "take_until_lf [] = ([], [], False)"
| "take_until_lf (s # ss) =
     (if LF \<in> set s
      then (takeWhile (\<lambda>b. b \<noteq> LF) s @ [LF], tl (dropWhile (\<lambda>b. b \<noteq> LF) s) # ss, True)
      else (case take_until_lf ss of (l, rest, found) \<Rightarrow> (s @ l, rest, found)))"

text \<open>\<^verbatim>\<open>read_line_bytes\<close>: up to and with the next line feed, or what is left at the end.\<close>

definition read_line_bytes :: "bytes io" where
  "read_line_bytes c =
     (case take_until_lf (segs c) of (l, rest, found) \<Rightarrow>
        if found then (Inr l, c\<lparr>segs := rest\<rparr>) else at_end (Inr l) (c\<lparr>segs := rest\<rparr>))"

fun take_exact :: "nat \<Rightarrow> bytes list \<Rightarrow> bytes \<times> bytes list" where
  "take_exact n [] = ([], [])"
| "take_exact n (s # ss) =
     (if n \<le> length s then (take n s, drop n s # ss)
      else (case take_exact (n - length s) ss of (b, rest) \<Rightarrow> (s @ b, rest)))"

definition read_exact :: "nat \<Rightarrow> bytes io" where
  "read_exact n c =
     (case take_exact n (segs c) of (b, rest) \<Rightarrow>
        if length b = n then (Inr b, c\<lparr>segs := rest\<rparr>)
        else at_end (Inl (IoError UnexpectedEof)) (c\<lparr>segs := rest\<rparr>))"

subsection \<open>Writing\<close>

fun beyond :: "limit \<Rightarrow> stop" where
  "beyond Leaves = IoError BrokenPipe"
| "beyond Stalls = Suspended"

definition write_all :: "bytes \<Rightarrow> unit io" where
  "write_all b c =
     (case room c of
        Reads \<Rightarrow> (Inr (), c\<lparr>out := out c @ b\<rparr>)
      | Takes k l \<Rightarrow>
          if length b \<le> k
          then (Inr (), c\<lparr>out := out c @ b, room := Takes (k - length b) l\<rparr>)
          else (Inl (beyond l), c\<lparr>out := out c @ take k b, room := Takes 0 l\<rparr>))"

text \<open>\<^verbatim>\<open>flush\<close> of a TCP socket does nothing.\<close>

definition flush :: "unit io" where
  "flush = io_return ()"

text \<open>\<^verbatim>\<open>tokio::io::copy\<close>: forward every segment until the origin's stream ends.\<close>

fun copy_segs :: "nat \<Rightarrow> bytes list \<Rightarrow> nat io" where
  "copy_segs n [] c = at_end (Inr n) (c\<lparr>segs := []\<rparr>)"
| "copy_segs n (s # ss) c =
     io_bind (write_all s) (\<lambda>_ c. copy_segs (n + length s) ss c) (c\<lparr>segs := ss\<rparr>)"

definition io_copy :: "nat io" where
  "io_copy c = copy_segs 0 (segs c) c"

subsection \<open>The contract of a stream operation\<close>

definition data :: "conn \<Rightarrow> bytes" where
  "data c = concat (segs c)"

definition same_view :: "conn \<Rightarrow> conn \<Rightarrow> bool" where
  "same_view c d \<longleftrightarrow> data c = data d \<and> fin c = fin d \<and> out c = out d \<and> room c = room d"

text \<open>Two runs agree when they give the same result, have written the same bytes and, if they
  go on, have left the same bytes to read.\<close>

definition agree :: "(stop + 'a) \<times> conn \<Rightarrow> (stop + 'a) \<times> conn \<Rightarrow> bool" where
  "agree p q \<longleftrightarrow>
     fst p = fst q \<and> out (snd p) = out (snd q) \<and> room (snd p) = room (snd q) \<and>
     (isl (fst p) \<or> same_view (snd p) (snd q))"

text \<open>The same connection with a client that takes \<open>k\<close> bytes in all.\<close>

definition capped :: "limit \<Rightarrow> nat \<Rightarrow> conn \<Rightarrow> conn" where
  "capped l k c = c\<lparr>room := Takes (k - length (out c)) l\<rparr>"

definition capped_run :: "limit \<Rightarrow> nat \<Rightarrow> (stop + 'a) \<times> conn \<Rightarrow> (stop + 'a) \<times> conn \<Rightarrow> bool" where
  "capped_run l k p q \<longleftrightarrow>
     (if length (out (snd p)) \<le> k then q = (fst p, capped l k (snd p))
      else fst q = Inl (beyond l) \<and> out (snd q) = take k (out (snd p)))"

text \<open>The same connection with more bytes to come, and the run that had waited for them: a result
  that was there stays, and what was delivered stays delivered.\<close>

definition resumed :: "bytes \<Rightarrow> stream_end \<Rightarrow> conn \<Rightarrow> conn" where
  "resumed t e c = c\<lparr>segs := segs c @ [t], fin := e\<rparr>"

definition resumed_run :: "bytes \<Rightarrow> stream_end \<Rightarrow> (stop + 'a) \<times> conn \<Rightarrow> (stop + 'a) \<times> conn \<Rightarrow> bool" where
  "resumed_run t e p q \<longleftrightarrow>
     (if fst p = Inl Suspended then prefix (out (snd p)) (out (snd q))
      else agree (fst p, resumed t e (snd p)) q)"

definition behaves_at :: "'a io \<Rightarrow> conn \<Rightarrow> bool" where
  "behaves_at m c \<longleftrightarrow>
     suffix (data (snd (m c))) (data c) \<and>
     fin (snd (m c)) = fin c \<and>
     prefix (out c) (out (snd (m c))) \<and>
     (room c = Reads \<longrightarrow> room (snd (m c)) = Reads) \<and>
     (\<forall>d. same_view c d \<longrightarrow> agree (m c) (m d)) \<and>
     (\<forall>l k. room c = Reads \<longrightarrow> length (out c) \<le> k \<longrightarrow> capped_run l k (m c) (m (capped l k c))) \<and>
     (\<forall>t e d. fin c = Open \<longrightarrow> same_view (resumed t e c) d \<longrightarrow> resumed_run t e (m c) (m d))"

text \<open>
  The interface of the stream operations: an operation only consumes a prefix of the origin's
  bytes, never touches how the stream ends, only appends to what the client received, does not
  depend on how the origin's bytes were cut into segments, run against a client that
  disconnects after \<open>k\<close> bytes either is the same run or fails having delivered the first
  \<open>k\<close> bytes, and, when more bytes arrive on a stream that was still open, keeps what it had
  already decided and delivered.
\<close>

locale stream_op =
  fixes m :: "'a io"
  assumes consumes: "suffix (data (snd (m c))) (data c)"
    and keeps_end: "fin (snd (m c)) = fin c"
    and extends: "prefix (out c) (out (snd (m c)))"
    and unlimited: "room c = Reads \<Longrightarrow> room (snd (m c)) = Reads"
    and segmentation: "same_view c d \<Longrightarrow> agree (m c) (m d)"
    and limited: "room c = Reads \<Longrightarrow> length (out c) \<le> k \<Longrightarrow> capped_run l k (m c) (m (capped l k c))"
    and resumes: "fin c = Open \<Longrightarrow> same_view (resumed t e c) d \<Longrightarrow> resumed_run t e (m c) (m d)"
begin

lemma same_output: "same_view c d \<Longrightarrow> fst (m c) = fst (m d) \<and> out (snd (m c)) = out (snd (m d))"
  using segmentation by (auto simp: agree_def)

lemma behaves: "behaves_at m c"
  using consumes keeps_end extends unlimited segmentation limited resumes
  by (simp add: behaves_at_def)

lemma resumed_output:
  assumes "fin c = Open" and "same_view (resumed t e c) d"
  shows "prefix (out (snd (m c))) (out (snd (m d)))"
  using resumes [OF assms] by (auto simp: resumed_run_def agree_def resumed_def split: if_splits)

lemma capped_output:
  assumes "room c = Reads" and "length (out c) \<le> k"
  shows "out (snd (m (capped l k c))) = take k (out (snd (m c)))"
  using limited [OF assms, of l] by (auto simp: capped_run_def capped_def split: if_splits)

lemma capped_stops:
  assumes "room c = Reads" and "length (out c) \<le> k" and "k < length (out (snd (m c)))"
  shows "fst (m (capped l k c)) = Inl (beyond l)"
  using limited [OF assms(1,2), of l] assms(3) by (simp add: capped_run_def)

end

lemma stream_opI: "(\<And>c. behaves_at m c) \<Longrightarrow> stream_op m"
  by unfold_locales (simp_all add: behaves_at_def)

lemma same_view_refl [simp]: "same_view c c"
  by (simp add: same_view_def)

lemma agree_refl [simp]: "agree p p"
  by (simp add: agree_def)

lemma take_prefix: "prefix xs ys \<Longrightarrow> k \<le> length xs \<Longrightarrow> take k ys = take k xs"
  by (auto elim!: prefixE)

text \<open>Stopping early is decided by the first operation of a sequence.\<close>

lemma bind_stop: "m c = (Inl e, c') \<Longrightarrow> io_bind m f c = (Inl e, c')"
  by (simp add: io_bind_def)

lemma bind_go: "m c = (Inr x, c') \<Longrightarrow> io_bind m f c = f x c'"
  by (simp add: io_bind_def)

lemma agree_bind:
  assumes "agree (m c) (m d)"
    and "\<And>x c1 d1. m c = (Inr x, c1) \<Longrightarrow> m d = (Inr x, d1) \<Longrightarrow> same_view c1 d1 \<Longrightarrow>
           agree (f x c1) (f x d1)"
  shows "agree (io_bind m f c) (io_bind m f d)"
proof (cases "m c")
  case c: (Pair r c1)
  obtain r' d1 where d: "m d = (r', d1)" by (cases "m d")
  from assms(1) c d have r: "r' = r" by (simp add: agree_def)
  show ?thesis
  proof (cases r)
    case (Inl e)
    with assms(1) c d r show ?thesis by (simp add: bind_stop agree_def)
  next
    case (Inr x)
    with assms(1) c d r have "same_view c1 d1" by (simp add: agree_def)
    with assms(2) c d r Inr show ?thesis by (simp add: bind_go)
  qed
qed

lemma capped_run_bind:
  assumes m: "capped_run l k (m c) (m d)"
    and f: "\<And>x c1. m c = (Inr x, c1) \<Longrightarrow> length (out c1) \<le> k \<Longrightarrow>
              capped_run l k (f x c1) (f x (capped l k c1))"
    and mono: "\<And>x c1. m c = (Inr x, c1) \<Longrightarrow> prefix (out c1) (out (snd (f x c1)))"
  shows "capped_run l k (io_bind m f c) (io_bind m f d)"
proof (cases "m c")
  case c: (Pair r c1)
  obtain r' d1 where d: "m d = (r', d1)" by (cases "m d")
  show ?thesis
  proof (cases "length (out c1) \<le> k")
    case True
    with m c d have "m d = (r, capped l k c1)" by (simp add: capped_run_def)
    with True f c show ?thesis
      by (cases r) (simp add: bind_stop capped_run_def, simp add: bind_go)
  next
    case False
    with m c d have s: "r' = Inl (beyond l)" "out d1 = take k (out c1)"
      by (simp_all add: capped_run_def)
    show ?thesis
    proof (cases r)
      case (Inl e)
      with False s c d show ?thesis by (simp add: bind_stop capped_run_def)
    next
      case (Inr x)
      with mono c have p: "prefix (out c1) (out (snd (f x c1)))" by simp
      then have "k < length (out (snd (f x c1)))"
        using False prefix_length_le by fastforce
      with False s c d Inr take_prefix [OF p, of k] show ?thesis
        by (simp add: bind_stop bind_go capped_run_def)
    qed
  qed
qed

text \<open>Writing only appends, at a single state; the continuation of a run that had waited is
  known to do so.\<close>

definition grows_at :: "'a io \<Rightarrow> conn \<Rightarrow> bool" where
  "grows_at m c \<longleftrightarrow> prefix (out c) (out (snd (m c)))"

lemma grows_bind:
  "grows_at m c \<Longrightarrow> (\<And>x c1. m c = (Inr x, c1) \<Longrightarrow> grows_at (f x) c1) \<Longrightarrow>
   grows_at (io_bind m f) c"
  by (cases "m c"; cases "fst (m c)")
     (auto simp: grows_at_def bind_stop bind_go intro: prefix_order.trans)

lemma resumed_run_bind:
  assumes m: "resumed_run t e (m c) (m d)"
    and f: "\<And>x c1 d1. m c = (Inr x, c1) \<Longrightarrow> same_view (resumed t e c1) d1 \<Longrightarrow>
              resumed_run t e (f x c1) (f x d1)"
    and mono: "\<And>x d1. grows_at (f x) d1"
  shows "resumed_run t e (io_bind m f c) (io_bind m f d)"
proof (cases "m c")
  case c: (Pair r c1)
  obtain r' d1 where d: "m d = (r', d1)" by (cases "m d")
  show ?thesis
  proof (cases r)
    case (Inl s)
    have "prefix (out d1) (out (snd (io_bind m f d)))"
      using d mono by (cases r') (simp_all add: bind_stop bind_go grows_at_def)
    with Inl m c d show ?thesis
      by (cases "s = Suspended")
         (auto simp: resumed_run_def bind_stop agree_def intro: prefix_order.trans)
  next
    case (Inr x)
    with m c d have "r' = Inr x" "same_view (resumed t e c1) d1"
      by (auto simp: resumed_run_def agree_def)
    with f Inr c d show ?thesis by (simp add: bind_go)
  qed
qed

lemma behaves_bind:
  assumes m: "behaves_at m c"
    and f: "\<And>x c1. m c = (Inr x, c1) \<Longrightarrow> behaves_at (f x) c1"
    and mono: "\<And>x d. grows_at (f x) d"
  shows "behaves_at (io_bind m f) c"
proof -
  have "suffix (data (snd (io_bind m f c))) (data c) \<and> fin (snd (io_bind m f c)) = fin c \<and>
      prefix (out c) (out (snd (io_bind m f c))) \<and>
      (room c = Reads \<longrightarrow> room (snd (io_bind m f c)) = Reads)"
  proof (cases "m c")
    case c: (Pair r c1)
    show ?thesis
    proof (cases r)
      case (Inl e)
      with m c show ?thesis by (simp add: bind_stop behaves_at_def)
    next
      case (Inr x)
      with f c have "behaves_at (f x) c1" by simp
      with m c Inr show ?thesis
        by (auto simp: bind_go behaves_at_def intro: suffix_order.trans prefix_order.trans)
    qed
  qed
  moreover have "agree (io_bind m f c) (io_bind m f d)" if "same_view c d" for d
    using m f that by (intro agree_bind) (auto simp: behaves_at_def)
  moreover have "capped_run l k (io_bind m f c) (io_bind m f (capped l k c))"
    if "room c = Reads" "length (out c) \<le> k" for l k
    using m f that by (intro capped_run_bind) (fastforce simp: behaves_at_def)+
  moreover have "resumed_run t e (io_bind m f c) (io_bind m f d)"
    if "fin c = Open" "same_view (resumed t e c) d" for t e d
  proof (rule resumed_run_bind [OF _ _ mono])
    show "resumed_run t e (m c) (m d)" using m that by (simp add: behaves_at_def)
    show "resumed_run t e (f x c1) (f x d1)"
      if "m c = (Inr x, c1)" "same_view (resumed t e c1) d1" for x c1 d1
      using m f [OF that(1)] that \<open>fin c = Open\<close> by (simp add: behaves_at_def)
  qed
  ultimately show ?thesis by (simp add: behaves_at_def)
qed

text \<open>Introduction rules that walk through the body of an operation.\<close>

named_theorems behaves \<open>the contract of a stream operation, by the shape of its body\<close>

lemma behaves_if [behaves]:
  "(b \<Longrightarrow> behaves_at f c) \<Longrightarrow> (\<not> b \<Longrightarrow> behaves_at g c) \<Longrightarrow>
   behaves_at (\<lambda>c. if b then f c else g c) c"
  by (cases b) simp_all

lemma behaves_sum [behaves]:
  "(\<And>e. r = Inl e \<Longrightarrow> behaves_at (f e) c) \<Longrightarrow> (\<And>x. r = Inr x \<Longrightarrow> behaves_at (g x) c) \<Longrightarrow>
   behaves_at (\<lambda>c. case r of Inl e \<Rightarrow> f e c | Inr x \<Rightarrow> g x c) c"
  by (cases r) simp_all

lemma behaves_option [behaves]:
  "(r = None \<Longrightarrow> behaves_at f c) \<Longrightarrow> (\<And>x. r = Some x \<Longrightarrow> behaves_at (g x) c) \<Longrightarrow>
   behaves_at (\<lambda>c. case r of None \<Rightarrow> f c | Some x \<Rightarrow> g x c) c"
  by (cases r) simp_all

lemma behaves_prod [behaves]:
  "(\<And>a b. p = (a, b) \<Longrightarrow> behaves_at (f a b) c) \<Longrightarrow>
   behaves_at (\<lambda>c. case p of (a, b) \<Rightarrow> f a b c) c"
  by (cases p) simp

lemma grows_cases [behaves]:
  "(b \<Longrightarrow> grows_at f c) \<Longrightarrow> (\<not> b \<Longrightarrow> grows_at g c) \<Longrightarrow> grows_at (\<lambda>c. if b then f c else g c) c"
  "(\<And>e. r = Inl e \<Longrightarrow> grows_at (f1 e) c) \<Longrightarrow> (\<And>x. r = Inr x \<Longrightarrow> grows_at (g1 x) c) \<Longrightarrow>
   grows_at (\<lambda>c. case r of Inl e \<Rightarrow> f1 e c | Inr x \<Rightarrow> g1 x c) c"
  "(q = None \<Longrightarrow> grows_at f c) \<Longrightarrow> (\<And>x. q = Some x \<Longrightarrow> grows_at (g2 x) c) \<Longrightarrow>
   grows_at (\<lambda>c. case q of None \<Rightarrow> f c | Some x \<Rightarrow> g2 x c) c"
  "(\<And>a b. p = (a, b) \<Longrightarrow> grows_at (f3 a b) c) \<Longrightarrow> grows_at (\<lambda>c. case p of (a, b) \<Rightarrow> f3 a b c) c"
  by (cases b, simp_all) (cases r; cases q; cases p; simp)+

declare behaves_bind [behaves] grows_bind [behaves]

lemma behaves_grows: "behaves_at m c \<Longrightarrow> grows_at m c"
  by (simp add: behaves_at_def grows_at_def)

subsection \<open>The primitives keep the contract\<close>

lemma behaves_return [simp, behaves]: "behaves_at (io_return x) c"
  by (auto simp: behaves_at_def io_return_def agree_def capped_run_def same_view_def
      resumed_run_def)

lemma grows_return [simp, behaves]: "grows_at (io_return x) c"
  by (rule behaves_grows) simp

lemma behaves_throw [simp, behaves]: "behaves_at (io_throw e) c"
  by (auto simp: behaves_at_def io_throw_def agree_def capped_run_def same_view_def
      resumed_run_def resumed_def)

lemma grows_throw [simp, behaves]: "grows_at (io_throw x) c"
  by (rule behaves_grows) simp

lemma behaves_flush [simp, behaves]: "behaves_at flush c"
  by (simp add: flush_def)

lemma behaves_write [simp, behaves]: "behaves_at (write_all b) c"
proof -
  have "resumed_run t e (write_all b c) (write_all b d)" if "same_view (resumed t e c) d" for t e d
    using that
    by (auto simp: resumed_run_def write_all_def resumed_def agree_def same_view_def data_def
        split: receiver.split)
  then show ?thesis
    by (auto simp: behaves_at_def write_all_def agree_def capped_run_def same_view_def data_def
        capped_def split: receiver.split)
qed

lemma grows_write [simp, behaves]: "grows_at (write_all b) c" "grows_at flush c"
  by (simp_all add: behaves_grows)

lemma take_until_lf_concat:
  "take_until_lf ss = (l, rest, found) \<Longrightarrow>
   (if LF \<in> set (concat ss)
    then found \<and> l = takeWhile (\<lambda>b. b \<noteq> LF) (concat ss) @ [LF] \<and>
         concat rest = tl (dropWhile (\<lambda>b. b \<noteq> LF) (concat ss))
    else \<not> found \<and> l = concat ss \<and> rest = [])"
proof (induction ss arbitrary: l rest found)
  case (Cons s ss)
  show ?case
  proof (cases "LF \<in> set s")
    case True
    then obtain a b where "s = a @ LF # b" "LF \<notin> set a" by (rule first_split)
    with Cons.prems show ?thesis by auto
  next
    case False
    obtain l' rest' found' where "take_until_lf ss = (l', rest', found')"
      by (cases "take_until_lf ss")
    with False Cons.IH Cons.prems show ?thesis by (fastforce split: if_splits)
  qed
qed simp

lemma take_exact_concat:
  "take_exact n ss = (b, rest) \<Longrightarrow> b = take n (concat ss) \<and> concat rest = drop n (concat ss)"
  by (induction n ss arbitrary: b rest rule: take_exact.induct)
     (auto split: if_splits prod.splits)

text \<open>An operation that only reads keeps the contract if what it reads and leaves depends on the
  origin's bytes alone.\<close>

lemma behaves_reader:
  assumes "suffix (data (snd (m c))) (data c)"
    and "fin (snd (m c)) = fin c" "out (snd (m c)) = out c" "room (snd (m c)) = room c"
    and room: "\<And>k. m (c\<lparr>room := k\<rparr>) = (fst (m c), snd (m c)\<lparr>room := k\<rparr>)"
    and view: "\<And>d. same_view c d \<Longrightarrow>
      fst (m d) = fst (m c) \<and> data (snd (m d)) = data (snd (m c)) \<and>
      fin (snd (m d)) = fin d \<and> out (snd (m d)) = out d \<and> room (snd (m d)) = room d"
    and more: "\<And>t e d. fin c = Open \<Longrightarrow> same_view (resumed t e c) d \<Longrightarrow> resumed_run t e (m c) (m d)"
  shows "behaves_at m c"
proof -
  have "agree (m c) (m d)" if "same_view c d" for d
    using view [OF that] that assms(2-4) by (simp add: agree_def same_view_def)
  moreover have "capped_run l k (m c) (m (capped l k c))" if "length (out c) \<le> k" for l k
    using that assms(3) by (simp add: capped_run_def capped_def room)
  ultimately show ?thesis
    using assms(1-4) more by (simp add: behaves_at_def)
qed

lemma at_end_simps [simp]:
  "snd (at_end r c) = c"
  "fst (at_end r c) = (case fin c of Closed \<Rightarrow> r | Reset \<Rightarrow> Inl (IoError ConnectionReset)
                        | Open \<Rightarrow> Inl Suspended)"
  by (auto simp: at_end_def split: stream_end.split)

lemma suffix_drop_line: "suffix (tl (dropWhile P xs)) xs"
  by (metis suffix_dropWhile suffix_order.trans suffix_tl)

lemma read_line_view:
  "fst (read_line_bytes c) =
     (if LF \<in> set (data c) then Inr (takeWhile (\<lambda>b. b \<noteq> LF) (data c) @ [LF])
      else fst (at_end (Inr (data c)) c)) \<and>
   data (snd (read_line_bytes c)) = tl (dropWhile (\<lambda>b. b \<noteq> LF) (data c)) \<and>
   fin (snd (read_line_bytes c)) = fin c \<and> out (snd (read_line_bytes c)) = out c \<and>
   room (snd (read_line_bytes c)) = room c"
  using take_until_lf_concat [of "segs c"]
  by (cases "take_until_lf (segs c)")
     (auto simp: read_line_bytes_def data_def at_end_def split: if_splits stream_end.split)

lemma read_line_room:
  "read_line_bytes (c\<lparr>room := k\<rparr>) = (fst (read_line_bytes c), snd (read_line_bytes c)\<lparr>room := k\<rparr>)"
  by (auto simp: read_line_bytes_def at_end_def split: prod.split stream_end.split)

lemma data_resumed: "data (resumed t e c) = data c @ t"
  "fin (resumed t e c) = e" "out (resumed t e c) = out c" "room (resumed t e c) = room c"
  by (simp_all add: resumed_def data_def)

lemma takeWhile_more: "x \<in> set xs \<Longrightarrow> takeWhile (\<lambda>y. y \<noteq> x) (xs @ ys) = takeWhile (\<lambda>y. y \<noteq> x) xs"
  "x \<in> set xs \<Longrightarrow> tl (dropWhile (\<lambda>y. y \<noteq> x) (xs @ ys)) = tl (dropWhile (\<lambda>y. y \<noteq> x) xs) @ ys"
  by (auto elim!: first_split)

lemma behaves_read_line [simp, behaves]: "behaves_at read_line_bytes c"
proof (rule behaves_reader)
  show "resumed_run t e (read_line_bytes c) (read_line_bytes d)"
    if o: "fin c = Open" and "same_view (resumed t e c) d" for t e d
  proof -
    from that(2) have d: "data d = data c @ t" "out d = out c" "room d = room c" "fin d = e"
      by (simp_all add: same_view_def data_resumed)
    show ?thesis
      using read_line_view [of c] read_line_view [of d] o d
      by (cases "LF \<in> set (data c)")
         (auto simp: resumed_run_def agree_def same_view_def data_resumed takeWhile_more)
  qed
qed (simp_all add: read_line_view read_line_room suffix_drop_line same_view_def)

lemma grows_read_line [simp, behaves]: "grows_at read_line_bytes c"
  by (simp add: behaves_grows)

lemma read_exact_view:
  "fst (read_exact n c) =
     (if n \<le> length (data c) then Inr (take n (data c))
      else fst (at_end (Inl (IoError UnexpectedEof)) c)) \<and>
   data (snd (read_exact n c)) = drop n (data c) \<and>
   fin (snd (read_exact n c)) = fin c \<and> out (snd (read_exact n c)) = out c \<and>
   room (snd (read_exact n c)) = room c"
  using take_exact_concat [of n "segs c"]
  by (cases "take_exact n (segs c)")
     (auto simp: read_exact_def data_def at_end_def split: stream_end.split)

lemma read_exact_room:
  "read_exact n (c\<lparr>room := k\<rparr>) = (fst (read_exact n c), snd (read_exact n c)\<lparr>room := k\<rparr>)"
  by (auto simp: read_exact_def at_end_def split: prod.split stream_end.split)

lemma behaves_read_exact [simp, behaves]: "behaves_at (read_exact n) c"
proof (rule behaves_reader)
  show "resumed_run t e (read_exact n c) (read_exact n d)"
    if o: "fin c = Open" and "same_view (resumed t e c) d" for t e d
  proof -
    from that(2) have d: "data d = data c @ t" "out d = out c" "room d = room c" "fin d = e"
      by (simp_all add: same_view_def data_resumed)
    show ?thesis
      using read_exact_view [of n c] read_exact_view [of n d] o d
      by (cases "n \<le> length (data c)")
         (auto simp: resumed_run_def agree_def same_view_def data_resumed)
  qed
qed (simp_all add: read_exact_view read_exact_room suffix_drop same_view_def)

lemma grows_read_exact [simp, behaves]: "grows_at (read_exact n) c"
  by (simp add: behaves_grows)

text \<open>
  An operation that forwards: it writes the first \<open>n\<close> of the origin's bytes, segment by
  segment, and either went on, met the end of the origin's stream, or lost the client.
\<close>

fun drop_segs :: "nat \<Rightarrow> bytes list \<Rightarrow> bytes list" where
  "drop_segs n [] = []"
| "drop_segs n (s # ss) = (if n \<le> length s then drop n s # ss else drop_segs (n - length s) ss)"

lemma concat_drop_segs: "concat (drop_segs n ss) = drop n (concat ss)"
  by (induction n ss rule: drop_segs.induct) auto

lemma drop_segs_all: "length (concat ss) < n \<Longrightarrow> drop_segs n ss = []"
  by (induction n ss rule: drop_segs.induct) auto

definition forwards_at :: "nat \<Rightarrow> 'a \<Rightarrow> 'a io \<Rightarrow> conn \<Rightarrow> bool" where
  "forwards_at n r m c \<longleftrightarrow>
     (case write_all (take n (data c)) c of
        (Inl e, c1) \<Rightarrow> (\<exists>ss. suffix (concat ss) (data c) \<and> m c = (Inl e, c1\<lparr>segs := ss\<rparr>))
      | (Inr _, c1) \<Rightarrow>
          m c = (if n \<le> length (data c) then io_return r else at_end (Inr r))
                  (c1\<lparr>segs := drop_segs n (segs c)\<rparr>))"

lemma forwards_agree:
  "forwards_at n r m c \<Longrightarrow> forwards_at n r m d \<Longrightarrow> same_view c d \<Longrightarrow> agree (m c) (m d)"
  by (auto simp: forwards_at_def write_all_def agree_def same_view_def io_return_def data_def
      concat_drop_segs split: receiver.splits if_splits stream_end.split)

lemma forwards_capped:
  assumes "forwards_at n r m c" and "forwards_at n r m (capped l k c)"
    and "room c = Reads" and "length (out c) \<le> k"
  shows "capped_run l k (m c) (m (capped l k c))"
  using assms
  by (auto simp: forwards_at_def write_all_def capped_run_def capped_def io_return_def data_def
      at_end_def split: if_splits stream_end.split)

lemma forwards_resumed:
  assumes c: "forwards_at n r m c" and d: "forwards_at n' r' m d" and o: "fin c = Open"
    and v: "same_view (resumed t e c) d" and n: "n \<le> n'" "n \<le> length (data c) \<Longrightarrow> n' = n \<and> r' = r"
  shows "resumed_run t e (m c) (m d)"
proof -
  from v have dd: "data d = data c @ t" "out d = out c" "room d = room c" "fin d = e"
    by (simp_all add: same_view_def data_resumed)
  have more: "take n' (data d) = take n (data c) @ drop n (take n' (data d))" if "n \<le> length (data c)"
    using that n dd by simp
  show ?thesis
  proof (cases "n \<le> length (data c)")
    case True
    with n(2) have [simp]: "n' = n" "r' = r" by simp_all
    from True c d o dd show ?thesis
      by (auto simp: forwards_at_def write_all_def resumed_run_def agree_def same_view_def
          resumed_def io_return_def data_def concat_drop_segs split: receiver.splits if_splits)
  next
    case False
    with n(1) have tc: "take n (data c) = data c" and "prefix (data c) (take n' (data d))"
      using dd by (simp_all add: prefix_def)
    then obtain zs where z: "take n' (data d) = data c @ zs" by (auto elim: prefixE)
    have c': "case write_all (data c) c of
        (Inl e, c1) \<Rightarrow> (\<exists>ss. m c = (Inl e, c1\<lparr>segs := ss\<rparr>))
      | (Inr _, c1) \<Rightarrow> fst (m c) = Inl Suspended \<and> out (snd (m c)) = out c1"
      using c False o unfolding forwards_at_def tc
      by (auto simp: write_all_def split: receiver.splits if_splits)
    have d': "out (snd (m d)) = out (snd (write_all (data c @ zs) d)) \<and>
        room (snd (m d)) = room (snd (write_all (data c @ zs) d)) \<and>
        (\<forall>x. fst (write_all (data c @ zs) d) = Inl x \<longrightarrow> fst (m d) = Inl x)"
      using d unfolding forwards_at_def z
      by (auto simp: write_all_def io_return_def split: receiver.splits if_splits)
    show ?thesis
      using c' d' dd
      by (auto simp: write_all_def resumed_run_def agree_def data_resumed
          split: receiver.splits if_splits)
  qed
qed

lemma behaves_forwards:
  assumes "\<And>d. data d = data c \<Longrightarrow> forwards_at n r m d"
    and more: "\<And>d. prefix (data c) (data d) \<Longrightarrow>
      \<exists>n' r'. forwards_at n' r' m d \<and> n \<le> n' \<and> (n \<le> length (data c) \<longrightarrow> n' = n \<and> r' = r)"
  shows "behaves_at m c"
proof -
  have f: "forwards_at n r m c" using assms by simp
  have "suffix (data (snd (m c))) (data c) \<and> fin (snd (m c)) = fin c \<and>
      prefix (out c) (out (snd (m c))) \<and> (room c = Reads \<longrightarrow> room (snd (m c)) = Reads)"
    using f
    by (auto simp: forwards_at_def write_all_def io_return_def data_def concat_drop_segs suffix_drop
        split: receiver.splits if_splits)
  moreover have "agree (m c) (m d)" if "same_view c d" for d
    by (rule forwards_agree [OF f assms(1) that]) (use that in \<open>simp add: same_view_def\<close>)
  moreover have "capped_run l k (m c) (m (capped l k c))"
    if "room c = Reads" "length (out c) \<le> k" for l k
    by (rule forwards_capped [OF f assms(1) that]) (simp add: capped_def data_def)
  moreover have "resumed_run t e (m c) (m d)" if "fin c = Open" "same_view (resumed t e c) d" for t e d
  proof -
    from that(2) have "prefix (data c) (data d)"
      by (metis data_resumed(1) prefix_def same_view_def)
    from more [OF this] obtain n' r' where "forwards_at n' r' m d" "n \<le> n'"
      "n \<le> length (data c) \<longrightarrow> n' = n \<and> r' = r" by blast
    with forwards_resumed [OF f _ that] show ?thesis by simp
  qed
  ultimately show ?thesis by (simp add: behaves_at_def)
qed

lemma io_bind_apply [simp]:
  "io_bind (\<lambda>c. (Inr x, g c)) f c = f x (g c)" "io_bind (\<lambda>c. (Inl e, g c)) f c = (Inl e, g c)"
  by (simp_all add: io_bind_def)

lemma copy_segs_all:
  "room c = Reads \<or> (\<exists>k l. room c = Takes k l \<and> length (concat ss) \<le> k) \<Longrightarrow>
   copy_segs n ss c =
     at_end (Inr (n + length (concat ss))) (snd (write_all (concat ss) (c\<lparr>segs := []\<rparr>)))"
proof (induction n ss c rule: copy_segs.induct)
  case (1 n c)
  then show ?case by (cases c) (auto simp: write_all_def)
next
  case (2 n s ss c)
  then show ?case by (cases c) (auto simp: io_bind_def write_all_def add.assoc)
qed

lemma copy_segs_fail:
  "room c = Takes k l \<Longrightarrow> k < length (concat ss) \<Longrightarrow>
   \<exists>ss'. suffix (concat ss') (concat ss) \<and>
     copy_segs n ss c = (Inl (beyond l),
       c\<lparr>segs := ss', out := out c @ take k (concat ss), room := Takes 0 l\<rparr>)"
proof (induction n ss c arbitrary: k rule: copy_segs.induct)
  case (2 n s ss c)
  show ?case
  proof (cases "length s \<le> k")
    case True
    let ?c = "c\<lparr>segs := ss, out := out c @ s, room := Takes (k - length s) l\<rparr>"
    have w: "write_all s (c\<lparr>segs := ss\<rparr>) = (Inr (), ?c)"
      using True 2(2) by (simp add: write_all_def)
    from True 2(3) have "k - length s < length (concat ss)" by simp
    with 2(1) [of "()" ?c "k - length s"] w have
      "\<exists>ss'. suffix (concat ss') (concat ss) \<and>
        copy_segs (n + length s) ss ?c = (Inl (beyond l),
         ?c\<lparr>segs := ss', out := out ?c @ take (k - length s) (concat ss), room := Takes 0 l\<rparr>)"
      by simp
    then obtain ss' where "suffix (concat ss') (concat ss)"
      "copy_segs (n + length s) ss ?c = (Inl (beyond l),
         ?c\<lparr>segs := ss', out := out ?c @ take (k - length s) (concat ss), room := Takes 0 l\<rparr>)"
      by blast
    with w True show ?thesis
      by (intro exI [of _ ss']) (auto simp: bind_go intro: suffix_appendI)
  next
    case False
    with 2(2) show ?thesis
      by (intro exI [of _ ss]) (auto simp: io_bind_def write_all_def suffix_def)
  qed
qed simp

lemma io_copy_forwards: "forwards_at (Suc (length (data d))) (length (data d)) io_copy d"
proof (cases "room d = Reads \<or> (\<exists>k l. room d = Takes k l \<and> length (data d) \<le> k)")
  case True
  with copy_segs_all [of d "segs d" 0] show ?thesis
    by (cases d) (auto simp: forwards_at_def io_copy_def data_def write_all_def drop_segs_all)
next
  case False
  then obtain k l where "room d = Takes k l" "k < length (data d)" by (cases "room d") auto
  with copy_segs_fail [of d k l "segs d" 0] show ?thesis
    by (auto simp: forwards_at_def io_copy_def data_def write_all_def)
qed

lemma behaves_io_copy [simp, behaves]: "behaves_at io_copy c"
proof (rule behaves_forwards)
  show "forwards_at (Suc (length (data c))) (length (data c)) io_copy d" if "data d = data c" for d
    using io_copy_forwards [of d] that by simp
  show "\<exists>n' r'. forwards_at n' r' io_copy d \<and> Suc (length (data c)) \<le> n' \<and>
      (Suc (length (data c)) \<le> length (data c) \<longrightarrow> n' = Suc (length (data c)) \<and> r' = length (data c))"
    if "prefix (data c) (data d)" for d
    using io_copy_forwards [of d] prefix_length_le [OF that] by auto
qed

lemma grows_io_copy [simp, behaves]: "grows_at io_copy c"
  by (simp add: behaves_grows)

subsection \<open>Runs on a stream that arrives in one segment\<close>

text \<open>
  By the contract, what an operation does is decided by its run on the flat connection that
  delivers the same bytes in one segment to a client that never fails. There the primitives
  are equations.
\<close>

definition flat :: "bytes \<Rightarrow> stream_end \<Rightarrow> bytes \<Rightarrow> conn" where
  "flat s e w = \<lparr>segs = [s], fin = e, out = w, room = Reads\<rparr>"

lemma flat_simps [simp]:
  "data (flat s e w) = s" "fin (flat s e w) = e" "out (flat s e w) = w" "room (flat s e w) = Reads"
  by (simp_all add: flat_def data_def)

lemma flat_view: "room c = Reads \<Longrightarrow> same_view c (flat (data c) (fin c) (out c))"
  by (simp add: same_view_def)

lemma flat_read_line [io_ops]:
  "LF \<notin> set l \<Longrightarrow> read_line_bytes (flat (l @ LF # s) e w) = (Inr (l @ [LF]), flat s e w)"
  by (simp add: read_line_bytes_def flat_def)

lemma flat_read_exact [io_ops]:
  "length b = n \<Longrightarrow> read_exact n (flat (b @ s) e w) = (Inr b, flat s e w)"
  by (simp add: read_exact_def flat_def)

lemma flat_write [io_ops]: "write_all b (flat s e w) = (Inr (), flat s e (w @ b))"
  by (simp add: write_all_def flat_def)

lemma flat_flush [io_ops]: "flush c = (Inr (), c)"
  by (simp add: flush_def io_return_def)

lemma flat_copy [io_ops]:
  "io_copy (flat s e w) = at_end (Inr (length s)) (\<lparr>segs = [], fin = e, out = w @ s, room = Reads\<rparr>)"
  by (simp add: io_copy_def flat_def write_all_def io_bind_def at_end_def split: stream_end.split)

lemma read_line_drained [io_ops]:
  "segs c = [] \<Longrightarrow> read_line_bytes c = at_end (Inr []) c"
  "read_line_bytes (flat [] e w) = at_end (Inr []) \<lparr>segs = [], fin = e, out = w, room = Reads\<rparr>"
  by (simp_all add: read_line_bytes_def flat_def at_end_def split: stream_end.split)

context stream_op
begin

text \<open>The run on the flat connection decides result and output of the run on any other.\<close>

lemma from_flat:
  "room c = Reads \<Longrightarrow> m (flat (data c) (fin c) (out c)) = (r, d) \<Longrightarrow>
   fst (m c) = r \<and> out (snd (m c)) = out d"
  using same_output [OF flat_view [of c]] by simp

lemma from_flat_go:
  assumes "room c = Reads" and "m (flat (data c) (fin c) (out c)) = (Inr x, d)"
  shows "\<exists>c'. m c = (Inr x, c') \<and> same_view c' d"
  using segmentation [OF flat_view [OF assms(1)]] assms(2)
  by (cases "m c") (auto simp: agree_def)

lemma from_flat_limited:
  "room c = Takes k l \<Longrightarrow> m (flat (data c) (fin c) (out c)) = (r, d) \<Longrightarrow>
   out (snd (m c)) = take (length (out c) + k) (out d)"
proof -
  assume k: "room c = Takes k l" and r: "m (flat (data c) (fin c) (out c)) = (r, d)"
  let ?f = "flat (data c) (fin c) (out c)"
  have "same_view c (capped l (length (out c) + k) ?f)"
    using k by (simp add: same_view_def capped_def data_def flat_def)
  from same_output [OF this] capped_output [of ?f "length (out c) + k" l] r
  show ?thesis by simp
qed

end

subsection \<open>Postconditions of a computation that went on\<close>

definition post :: "('a \<Rightarrow> conn \<Rightarrow> bool) \<Rightarrow> 'a io \<Rightarrow> conn \<Rightarrow> bool" where
  "post P m c \<longleftrightarrow> (\<forall>x c'. m c = (Inr x, c') \<longrightarrow> P x c')"

named_theorems posts \<open>postconditions, by the shape of the body\<close>

lemma postI: "(\<And>x c'. m c = (Inr x, c') \<Longrightarrow> P x c') \<Longrightarrow> post P m c"
  by (simp add: post_def)

lemma post_weaken: "post Q m c \<Longrightarrow> (\<And>x c'. Q x c' \<Longrightarrow> P x c') \<Longrightarrow> post P m c"
  by (simp add: post_def)

lemma post_bind [posts]:
  "(\<And>x c1. m c = (Inr x, c1) \<Longrightarrow> post P (f x) c1) \<Longrightarrow> post P (io_bind m f) c"
  by (auto simp: post_def io_bind_def split: prod.splits sum.splits)

lemma post_if [posts]:
  "(b \<Longrightarrow> post P f c) \<Longrightarrow> (\<not> b \<Longrightarrow> post P g c) \<Longrightarrow> post P (\<lambda>c. if b then f c else g c) c"
  by (cases b) simp_all

lemma post_sum [posts]:
  "(\<And>e. r = Inl e \<Longrightarrow> post P (f e) c) \<Longrightarrow> (\<And>x. r = Inr x \<Longrightarrow> post P (g x) c) \<Longrightarrow>
   post P (\<lambda>c. case r of Inl e \<Rightarrow> f e c | Inr x \<Rightarrow> g x c) c"
  by (cases r) simp_all

lemma post_option [posts]:
  "(r = None \<Longrightarrow> post P f c) \<Longrightarrow> (\<And>x. r = Some x \<Longrightarrow> post P (g x) c) \<Longrightarrow>
   post P (\<lambda>c. case r of None \<Rightarrow> f c | Some x \<Rightarrow> g x c) c"
  by (cases r) simp_all

lemma post_prod [posts]:
  "(\<And>a b. p = (a, b) \<Longrightarrow> post P (f a b) c) \<Longrightarrow> post P (\<lambda>c. case p of (a, b) \<Rightarrow> f a b c) c"
  by (cases p) simp

lemma post_throw [posts]: "post P (io_throw e) c"
  by (simp add: post_def io_throw_def)

lemma post_return [posts]: "P x c \<Longrightarrow> post P (io_return x) c"
  by (simp add: post_def io_return_def)

lemma read_line_go: "read_line_bytes c = (Inr l, c1) \<Longrightarrow> data c = l @ data c1 \<and> out c1 = out c"
  using read_line_view [of c]
  by (cases "LF \<in> set (data c)")
     (auto dest!: split_list_first split: stream_end.splits)

lemma read_exact_go: "read_exact n c = (Inr b, c1) \<Longrightarrow> data c = b @ data c1 \<and> out c1 = out c"
  using read_exact_view [of n c] by (auto split: if_splits stream_end.splits)

lemma write_go: "write_all b c = (Inr u, c1) \<Longrightarrow> data c1 = data c \<and> out c1 = out c @ b"
  by (auto simp: write_all_def data_def split: receiver.splits if_splits)

end
