(* ===== verification/Chunked.thy ===== *)
theory Chunked
  imports ByteStream
begin

section \<open>Chunked transfer coding (tcp\_proxy.rs)\<close>

text \<open>
  \<open>parse_chunk_size\<close>, the loop that forwards a given number of bytes, \<open>pass_through_chunked\<close>,
  \<open>read_chunked_body\<close> and \<open>write_chunked_body\<close>, over the connection of \<open>ByteStream\<close>.
  Each loop terminates because every round consumes bytes of the origin's stream.
\<close>

subsection \<open>Chunk sizes\<close>

definition chunk_delim :: "byte \<Rightarrow> bool" where
  "chunk_delim b \<longleftrightarrow> b = CHR '';'' \<or> b = CR \<or> b = LF \<or> b = CHR '' ''"

definition parse_chunk_size :: "bytes \<Rightarrow> error_kind + nat" where
  "parse_chunk_size line =
     (case str_from_utf8 (takeWhile (\<lambda>b. \<not> chunk_delim b) line) of
        None \<Rightarrow> Inl InvalidData
      | Some hex_str \<Rightarrow>
          (case from_str_radix 16 (trim hex_str) of
             None \<Rightarrow> Inl InvalidData
           | Some n \<Rightarrow> Inr n))"

lemma parse_chunk_size_bound: "parse_chunk_size line = Inr n \<Longrightarrow> n < word_modulus"
  by (auto simp: parse_chunk_size_def dest: from_str_radix_bound split: option.splits)

lemma parse_chunk_size_error: "parse_chunk_size line = Inl e \<Longrightarrow> e = InvalidData"
  by (auto simp: parse_chunk_size_def split: option.splits)

text \<open>What may follow the digits of a chunk size: nothing, or a delimiter and anything.\<close>

definition after_size :: "bytes \<Rightarrow> bool" where
  "after_size t \<longleftrightarrow> t = [] \<or> chunk_delim (hd t)"

lemma takeWhile_size:
  "after_size t \<Longrightarrow> takeWhile (\<lambda>b. \<not> chunk_delim b) (format_hex n @ t) = format_hex n"
  using hex.format_free [of n]
  by (subst takeWhile_append2; cases t)
     (auto simp: after_size_def format_hex_def chunk_delim_def)

lemma parse_chunk_size_format:
  assumes "n < word_modulus" and "after_size t"
  shows "parse_chunk_size (format_hex n @ t) = Inr n"
proof -
  have t: "token (format_hex n)" by (simp add: format_hex_def hex.format_token)
  then have "trim (format_hex n) = format_hex n" using trim_token [of "[]" _ "[]"] by simp
  moreover have "utf8_valid (format_hex n)" by (rule utf8_valid_all_ascii [OF list_all_asciiD [OF t]])
  ultimately show ?thesis
    using assms hex.from_str_format [of n]
    by (simp add: parse_chunk_size_def takeWhile_size str_from_utf8_def format_hex_def [symmetric])
qed

subsection \<open>Forwarding a given number of bytes\<close>

text \<open>The \<^verbatim>\<open>while remaining > 0\<close> loop of the pass-through paths, with its 8 KiB buffer.\<close>

function forward_bytes :: "nat \<Rightarrow> unit io" where
  "forward_bytes remaining c =
     (if remaining > 0 then
        io_bind (read_some (min remaining 8192)) (\<lambda>buf c.
          if buf = [] then io_return () c
          else io_bind (write_all buf) (\<lambda>_ c. forward_bytes (remaining - length buf) c) c) c
      else io_return () c)"
  by pat_completeness auto
termination
  by (relation "measure fst") auto

declare forward_bytes.simps [simp del]

lemma write_segs: "write_all b (c\<lparr>segs := ss\<rparr>) =
    (fst (write_all b c), snd (write_all b c)\<lparr>segs := ss\<rparr>)"
  by (cases c) (auto simp: write_all_def split: receiver.split option.split)

lemma write_append: "write_all (a @ b) c = io_bind (write_all a) (\<lambda>_. write_all b) c"
  by (cases c) (auto simp: write_all_def io_bind_def split: receiver.split option.split)

lemma take_some_props:
  assumes "take_some n ss = (b, rest)" and "0 < n"
  shows "b = [] \<longleftrightarrow> concat ss = []" "length b \<le> n"
    "b = take (length b) (concat ss)" "concat rest = drop (length b) (concat ss)"
    "concat ss = [] \<Longrightarrow> rest = []"
    "b \<noteq> [] \<Longrightarrow> length b \<le> k \<Longrightarrow> drop_segs (k - length b) rest = drop_segs k ss"
  using assms by (induction n ss rule: take_some.induct) (auto simp: min_def split: if_splits)

lemma forward_bytes_forwards: "forwards_at n () (forward_bytes n) c"
proof (induction n arbitrary: c rule: less_induct)
  case (less n)
  show ?case
  proof (cases "n = 0")
    case True
    then show ?thesis
      by (cases c; cases "segs c")
         (auto simp: forwards_at_def forward_bytes.simps [of 0] write_all_def io_return_def
           split: receiver.split option.split)
  next
    case False
    obtain b rest where ts: "take_some (min n 8192) (segs c) = (b, rest)"
      by (cases "take_some (min n 8192) (segs c)")
    note p = take_some_props [OF ts]
    show ?thesis
    proof (cases "b = []")
      case True
      with False p ts have d: "data c = []" "rest = []" by (auto simp: data_def)
      from d(1) False have "drop_segs n (segs c) = []"
        by (intro drop_segs_all) (metis data_def list.size(3) neq0_conv)
      with d True False ts show ?thesis
        by (cases c)
           (auto simp: forwards_at_def forward_bytes.simps [of n] read_some_def at_end_def
             io_bind_def write_all_def io_return_def
             split: receiver.split option.split stream_end.split)
    next
      case b: False
      let ?m = "length b" and ?c = "c\<lparr>segs := rest\<rparr>"
      have m: "?m \<le> n" "0 < ?m" using p(2) False b by auto
      have eq: "forward_bytes n c = io_bind (write_all b) (\<lambda>_. forward_bytes (n - ?m)) ?c"
        using False b ts by (subst forward_bytes.simps) (simp add: read_some_def io_bind_def)
      have d: "data ?c = drop ?m (data c)" "b = take ?m (data c)"
        using p(3,4) False by (simp_all add: data_def)
      have "take n (data c) = take (?m + (n - ?m)) (data c)" using m by simp
      with d have tk: "take n (data c) = b @ take (n - ?m) (data ?c)"
        by (simp only: take_add)
      from d(2) have "?m = min (length (data c)) ?m" by (metis length_take)
      then have len: "n \<le> length (data c) \<longleftrightarrow> n - ?m \<le> length (data ?c)"
        using d(1) m by simp linarith
      show ?thesis
      proof (cases "write_all b c")
        case w: (Pair r c1)
        show ?thesis
        proof (cases r)
          case (Inl e)
          with w have "write_all (take n (data c)) c = (Inl e, c1)"
            by (simp add: tk write_append bind_stop)
          moreover have "forward_bytes n c = (Inl e, c1\<lparr>segs := rest\<rparr>)"
            using w Inl by (simp add: eq write_segs bind_stop)
          moreover have "suffix (concat rest) (data c)"
            using p(4) False by (simp add: data_def suffix_drop)
          ultimately show ?thesis by (auto simp: forwards_at_def)
        next
          case (Inr u)
          let ?c1 = "c1\<lparr>segs := rest\<rparr>"
          have ih: "forwards_at (n - ?m) () (forward_bytes (n - ?m)) ?c1"
            by (rule less.IH) (use m in linarith)
          have fb: "forward_bytes n c = forward_bytes (n - ?m) ?c1"
            using w Inr by (simp add: eq write_segs bind_go)
          have wr: "write_all (take n (data c)) c = write_all (take (n - ?m) (data ?c1)) c1"
            using w Inr by (simp add: tk write_append bind_go) (simp add: data_def)
          have ds: "drop_segs (n - ?m) rest = drop_segs n (segs c)"
            using p(6) b m False by simp
          have sfx: "suffix (data ?c1) (data c)" "data ?c1 = data ?c"
            using d(1) by (simp_all add: data_def suffix_drop)
          show ?thesis
          proof (cases "write_all (take (n - ?m) (data ?c1)) c1")
            case w2: (Pair r2 c2)
            show ?thesis
            proof (cases r2)
              case (Inl e)
              with ih w2 obtain ss where "suffix (concat ss) (data ?c1)"
                "forward_bytes (n - ?m) ?c1 = (Inl e, c2\<lparr>segs := ss\<rparr>)"
                by (auto simp: forwards_at_def write_segs)
              with Inl w2 fb wr sfx(1) show ?thesis
                by (auto simp: forwards_at_def intro: suffix_order.trans)
            next
              case r2: (Inr u2)
              with ih w2 fb wr ds len sfx(2) show ?thesis
                by (simp add: forwards_at_def write_segs)
            qed
          qed
        qed
      qed
    qed
  qed
qed

lemma behaves_forward [simp, behaves]: "behaves_at (forward_bytes n) c"
  by (rule behaves_forwards) (blast intro: forward_bytes_forwards)+

lemma grows_forward [simp, behaves]: "grows_at (forward_bytes n) c"
  by (simp add: behaves_grows)

lemma flat_forward [io_ops]:
  assumes "length b = n"
  shows "forward_bytes n (flat (b @ s) e w) = (Inr (), flat s e (w @ b))"
  using forward_bytes_forwards [of n "flat (b @ s) e w"] assms
  by (simp add: forwards_at_def io_ops io_return_def) (simp add: flat_def)

text \<open>A shorter stream is forwarded whole; the loop then stops as the stream ends.\<close>

lemma flat_forward_short [io_ops]:
  assumes "length s < n"
  shows "forward_bytes n (flat s e w) =
    at_end (Inr ()) \<lparr>segs = [], fin = e, out = w @ s, room = Reads\<rparr>"
  using forward_bytes_forwards [of n "flat s e w"] assms drop_segs_all [of "[s]" n]
  by (simp add: forwards_at_def io_ops) (simp add: flat_def)

subsection \<open>Chunked bodies\<close>

text \<open>Progress of the loops: reading a line that is not empty consumes input.\<close>

lemma read_line_less:
  "read_line_bytes c = (Inr l, c1) \<Longrightarrow> l \<noteq> [] \<Longrightarrow> length (data c1) < length (data c)"
  using read_line_view [of c]
  by (cases "LF \<in> set (data c)")
     (auto dest!: split_list_first split: stream_end.splits)

lemma behaves_le: "behaves_at m c \<Longrightarrow> m c = (r, c1) \<Longrightarrow> length (data c1) \<le> length (data c)"
  by (auto simp: behaves_at_def dest: suffix_length_le)

lemmas io_le = behaves_le [OF behaves_write] behaves_le [OF behaves_forward]
  behaves_le [OF behaves_read_exact]

function pass_through_chunked :: "unit io" where
  "pass_through_chunked c =
     io_bind read_line_bytes (\<lambda>size_line c.
       if size_line = [] then io_return () c
       else io_bind (write_all size_line) (\<lambda>_ c.
         case parse_chunk_size size_line of
           Inl e \<Rightarrow> io_throw (IoError e) c
         | Inr chunk_size \<Rightarrow>
             if chunk_size = 0 then
               io_bind read_line_bytes (\<lambda>trailer. write_all trailer) c
             else
               io_bind (forward_bytes chunk_size) (\<lambda>_ c.
                 io_bind (read_exact 2) (\<lambda>crlf c.
                   io_bind (write_all crlf) (\<lambda>_ c. pass_through_chunked c) c) c) c) c) c"
  by pat_completeness auto
termination
  by (relation "measure (\<lambda>c. length (data c))")
     (auto dest!: read_line_less io_le)

declare pass_through_chunked.simps [simp del]

text \<open>\<^verbatim>\<open>vec![0u8; n]\<close> panics with a capacity overflow when \<open>n\<close> exceeds \<^verbatim>\<open>isize::MAX\<close>.\<close>

definition isize_max :: nat where
  "isize_max = 2 ^ 63 - 1"

function read_chunks :: "nat \<Rightarrow> bytes \<Rightarrow> bytes io" where
  "read_chunks max_size body c =
     io_bind read_line_bytes (\<lambda>size_line c.
       if size_line = [] then io_return body c
       else
         case parse_chunk_size size_line of
           Inl e \<Rightarrow> io_throw (IoError e) c
         | Inr chunk_size \<Rightarrow>
             if chunk_size = 0 then io_bind read_line_bytes (\<lambda>_. io_return body) c
             else if wrapping_add (length body) chunk_size > max_size
             then io_throw (IoError InvalidData) c
             else if chunk_size > isize_max then io_throw Panicked c
             else
               io_bind (read_exact chunk_size) (\<lambda>chunk c.
                 io_bind (read_exact 2) (\<lambda>_ c. read_chunks max_size (body @ chunk) c) c) c) c"
  by pat_completeness auto
termination
  by (relation "measure (\<lambda>(max_size, body, c). length (data c))")
     (auto dest!: read_line_less io_le)

declare read_chunks.simps [simp del]

definition read_chunked_body :: "nat \<Rightarrow> bytes io" where
  "read_chunked_body max_size = read_chunks max_size []"

definition write_chunked_body :: "bytes \<Rightarrow> unit io" where
  "write_chunked_body body =
     io_bind (write_all (format_hex (length body) @ CRLF)) (\<lambda>_.
     io_bind (write_all body) (\<lambda>_.
     io_bind (write_all CRLF) (\<lambda>_.
     write_all (''0'' @ CRLF @ CRLF))))"

subsection \<open>The operations keep the contract of the stream\<close>

lemmas pass_through_eq = ext [OF pass_through_chunked.simps]
lemmas read_chunks_eq = ext [OF read_chunks.simps]

lemma grows_pass_through [simp, behaves]: "grows_at pass_through_chunked c"
proof (induction c rule: pass_through_chunked.induct)
  case (1 c)
  show ?case
    by (subst pass_through_eq) (intro behaves 1, assumption+)
qed

lemma behaves_pass_through [simp, behaves]: "behaves_at pass_through_chunked c"
proof (induction c rule: pass_through_chunked.induct)
  case (1 c)
  show ?case
    by (subst pass_through_eq) (intro behaves 1, assumption+)
qed

lemma grows_read_chunks [simp, behaves]: "grows_at (read_chunks max_size body) c"
proof (induction max_size body c rule: read_chunks.induct)
  case (1 max_size body c)
  show ?case
    by (subst read_chunks_eq) (intro behaves 1, assumption+)
qed

lemma behaves_read_chunks [simp, behaves]: "behaves_at (read_chunks max_size body) c"
proof (induction max_size body c rule: read_chunks.induct)
  case (1 max_size body c)
  show ?case
    by (subst read_chunks_eq) (intro behaves 1, assumption+)
qed

lemma behaves_read_chunked [simp, behaves]: "behaves_at (read_chunked_body max_size) c"
  by (simp add: read_chunked_body_def)

lemma behaves_write_chunked [simp, behaves]: "behaves_at (write_chunked_body body) c"
  unfolding write_chunked_body_def by (intro behaves)

lemma grows_chunked [simp, behaves]:
  "grows_at (read_chunked_body max_size) c" "grows_at (write_chunked_body body) c"
  by (simp_all add: behaves_grows)

interpretation pass: stream_op pass_through_chunked
  by (rule stream_opI) simp

interpretation rdc: stream_op "read_chunked_body max_size"
  by (rule stream_opI) simp

interpretation wrc: stream_op "write_chunked_body body"
  by (rule stream_opI) simp

interpretation fwd: stream_op "forward_bytes n"
  by (rule stream_opI) simp

subsection \<open>Chunked bodies on the wire\<close>

text \<open>
  A chunk on the wire: its size in hexadecimal, an extension that ends the size line (\<open>[CR]\<close>
  for the plain form), the payload, and the two bytes after it. The last chunk is a zero size line
  and one trailer line.
\<close>

definition chunk_wire :: "bytes \<times> bytes \<Rightarrow> bytes" where
  "chunk_wire ch = format_hex (length (snd ch)) @ fst ch @ LF # snd ch @ CRLF"

definition last_wire :: "bytes \<Rightarrow> bytes \<Rightarrow> bytes" where
  "last_wire ext trailer = ''0'' @ ext @ LF # trailer @ [LF]"

definition ext_ok :: "bytes \<Rightarrow> bool" where
  "ext_ok ext \<longleftrightarrow> after_size ext \<and> LF \<notin> set ext"

definition chunk_ok :: "bytes \<times> bytes \<Rightarrow> bool" where
  "chunk_ok ch \<longleftrightarrow> ext_ok (fst ch) \<and> snd ch \<noteq> [] \<and> length (snd ch) < word_modulus"

definition payload :: "(bytes \<times> bytes) list \<Rightarrow> bytes" where
  "payload chs = concat (map snd chs)"

definition wire :: "(bytes \<times> bytes) list \<Rightarrow> bytes" where
  "wire chs = concat (map chunk_wire chs)"

lemma wire_simps [simp]:
  "wire [] = []" "wire (ch # chs) = chunk_wire ch @ wire chs"
  "payload [] = []" "payload (ch # chs) = snd ch @ payload chs"
  by (simp_all add: wire_def payload_def)

lemma hex_no_LF [simp]: "LF \<notin> set (format_hex n)"
  by (simp add: format_hex_def hex.format_free)

lemma format_hex_digit: "n < 16 \<Longrightarrow> format_hex n = [digit_char n]"
  by (simp add: format_hex_def format_radix.simps)

lemma format_hex_0: "format_hex 0 = ''0''"
  by (simp add: format_hex_digit)

text \<open>Reading the size line of a chunk, and of the last chunk.\<close>

lemma flat_size_line [io_ops]:
  assumes "ext_ok ext" and "n < word_modulus"
  shows "read_line_bytes (flat (format_hex n @ ext @ LF # s) e w) =
      (Inr (format_hex n @ ext @ [LF]), flat s e w)"
    and "parse_chunk_size (format_hex n @ ext @ [LF]) = Inr n"
proof -
  show "read_line_bytes (flat (format_hex n @ ext @ LF # s) e w) =
      (Inr (format_hex n @ ext @ [LF]), flat s e w)"
    using flat_read_line [of "format_hex n @ ext" s e w] assms(1) by (simp add: ext_ok_def)
  have "after_size (ext @ [LF])"
    using assms(1) by (cases ext) (auto simp: ext_ok_def after_size_def chunk_delim_def)
  then show "parse_chunk_size (format_hex n @ ext @ [LF]) = Inr n"
    using parse_chunk_size_format [OF assms(2), of "ext @ [LF]"] by simp
qed

lemma flat_last_line [io_ops]:
  assumes "ext_ok ext"
  shows "read_line_bytes (flat (CHR ''0'' # ext @ LF # s) e w) =
      (Inr (CHR ''0'' # ext @ [LF]), flat s e w)"
    and "parse_chunk_size (CHR ''0'' # ext @ [LF]) = Inr 0"
  using flat_size_line(1) [OF assms, of 0 s e w] flat_size_line(2) [OF assms, of 0]
  by (simp_all add: format_hex_0 word_modulus_def)

lemma flat_read_crlf [io_ops]: "read_exact 2 (flat (CR # LF # s) e w) = (Inr CRLF, flat s e w)"
  using flat_read_exact [of CRLF 2 s e w] by simp

lemma flat_pass_wire:
  assumes "\<forall>ch \<in> set chs. chunk_ok ch" and "ext_ok ext" and "LF \<notin> set tr"
  shows "pass_through_chunked (flat (wire chs @ last_wire ext tr @ s) e w) =
    (Inr (), flat s e (w @ wire chs @ last_wire ext tr))"
  using assms(1)
proof (induction chs arbitrary: w)
  case Nil
  show ?case
    using assms(2,3)
    by (subst pass_through_chunked.simps)
       (simp add: last_wire_def bind_go io_ops io_return_def)
next
  case (Cons ch chs)
  then have "chunk_ok ch" by simp
  with Cons show ?case
    by (subst pass_through_chunked.simps)
       (simp add: chunk_wire_def chunk_ok_def bind_go io_ops)
qed

lemma read_chunks_last:
  assumes "ext_ok ext" and "LF \<notin> set tr"
  shows "read_chunks max_size acc (flat (last_wire ext tr @ s) e w) = (Inr acc, flat s e w)"
  using assms
  by (subst read_chunks.simps) (simp add: last_wire_def bind_go io_ops io_return_def)

text \<open>One round of the reading loop on a chunk.\<close>

lemma read_chunks_chunk:
  assumes "chunk_ok ch"
  shows "read_chunks max_size acc (flat (chunk_wire ch @ s) e w) =
    (if wrapping_add (length acc) (length (snd ch)) > max_size
     then (Inl (IoError InvalidData), flat (snd ch @ CRLF @ s) e w)
     else if length (snd ch) > isize_max then (Inl Panicked, flat (snd ch @ CRLF @ s) e w)
     else read_chunks max_size (acc @ snd ch) (flat s e w))"
  using assms
  by (subst read_chunks.simps)
     (simp add: chunk_wire_def chunk_ok_def bind_go io_ops io_throw_def)

text \<open>The chunks before some place in the body, whatever comes there.\<close>

lemma flat_read_chunks:
  assumes "\<forall>ch \<in> set chs. chunk_ok ch"
    and "length acc + length (payload chs) \<le> max_size" and "max_size \<le> isize_max"
  shows "read_chunks max_size acc (flat (wire chs @ s) e w) = read_chunks max_size (acc @ payload chs) (flat s e w)"
  using assms(1,2)
proof (induction chs arbitrary: acc)
  case (Cons ch chs)
  then have "wrapping_add (length acc) (length (snd ch)) = length acc + length (snd ch)"
    using assms(3) by (intro wrapping_add_small) (simp add: isize_max_def word_modulus_def)
  with Cons assms(3) show ?case
    by (simp add: read_chunks_chunk)
qed simp

text \<open>How an operation stops that wants more bytes than there are.\<close>

fun cut_off :: "stream_end \<Rightarrow> stop" where
  "cut_off Closed = IoError UnexpectedEof"
| "cut_off Reset = IoError ConnectionReset"
| "cut_off Open = Suspended"

lemma read_exact_short:
  "length b < n \<Longrightarrow> \<exists>d. read_exact n (flat b e w) = (Inl (cut_off e), d) \<and> out d = w"
  using read_exact_view [of n "flat b e w"]
  by (cases "read_exact n (flat b e w)"; cases e) auto

text \<open>A body that breaks off inside a chunk, after its size line.\<close>

lemma read_chunks_cut:
  assumes "0 < n" and "ext_ok ext" and "length part < n + 2"
    and "length acc + n \<le> max_size" and "max_size \<le> isize_max"
  shows "\<exists>d. read_chunks max_size acc (flat (format_hex n @ ext @ LF # part) e w) = (Inl (cut_off e), d) \<and> out d = w"
proof -
  have n: "n < word_modulus" "\<not> n > isize_max" "\<not> wrapping_add (length acc) n > max_size"
    using assms(4,5) wrapping_add_small [of "length acc" n] by (simp_all add: isize_max_def word_modulus_def)
  have round: "read_chunks max_size acc (flat (format_hex n @ ext @ LF # part) e w) =
      io_bind (read_exact n) (\<lambda>chunk c. io_bind (read_exact 2) (\<lambda>_ c. read_chunks max_size (acc @ chunk) c) c)
        (flat part e w)"
    using assms(1) n by (subst read_chunks.simps) (simp add: bind_go flat_size_line [OF assms(2) n(1)])
  show ?thesis
  proof (cases "length part < n")
    case True
    from read_exact_short [OF this, of e w] show ?thesis unfolding round by (auto simp: bind_stop)
  next
    case False
    then have "read_exact n (flat part e w) = (Inr (take n part), flat (drop n part) e w)"
      using flat_read_exact [of "take n part" n "drop n part" e w] by simp
    moreover have "length (drop n part) < 2" using assms(3) False by simp
    then obtain d where "read_exact 2 (flat (drop n part) e w) = (Inl (cut_off e), d)" "out d = w"
      using read_exact_short by blast
    ultimately show ?thesis unfolding round by (simp add: bind_go bind_stop)
  qed
qed

lemma flat_read_wire:
  assumes "\<forall>ch \<in> set chs. chunk_ok ch" and "ext_ok ext" and "LF \<notin> set tr"
    and "length acc + length (payload chs) \<le> max_size" and "max_size \<le> isize_max"
  shows "read_chunks max_size acc (flat (wire chs @ last_wire ext tr @ s) e w) =
    (Inr (acc @ payload chs), flat s e w)"
  using assms(1,4)
proof (induction chs arbitrary: acc)
  case Nil
  then show ?case using assms(2,3) by (simp add: read_chunks_last)
next
  case (Cons ch chs)
  then have "wrapping_add (length acc) (length (snd ch)) = length acc + length (snd ch)"
    using assms(5) by (intro wrapping_add_small) (simp add: isize_max_def word_modulus_def)
  with Cons assms(5) show ?case
    by (simp add: read_chunks_chunk)
qed

text \<open>A body over the limit is refused at the chunk that exceeds it.\<close>

lemma flat_read_over:
  assumes "\<forall>ch \<in> set chs. chunk_ok ch \<and> length (snd ch) \<le> isize_max"
    and "max_size < length acc + length (payload chs)"
    and "length acc \<le> max_size" and "max_size \<le> isize_max"
  shows "\<exists>c'. read_chunks max_size acc (flat (wire chs @ s) e w) = (Inl (IoError InvalidData), c') \<and>
    out c' = w"
  using assms(1-3)
proof (induction chs arbitrary: acc)
  case (Cons ch chs)
  then have "wrapping_add (length acc) (length (snd ch)) = length acc + length (snd ch)"
    using assms(4) by (intro wrapping_add_small) (simp add: isize_max_def word_modulus_def)
  with Cons show ?case
    by (simp add: read_chunks_chunk)
qed simp

lemma flat_write_chunked [io_ops]:
  "write_chunked_body b (flat s e w) =
     (Inr (), flat s e (w @ format_hex (length b) @ CRLF @ b @ CRLF @ ''0'' @ CRLF @ CRLF))"
  by (simp add: write_chunked_body_def bind_go io_ops)

lemma ext_ok_CR [simp]: "ext_ok [CR]"
  by (simp add: ext_ok_def after_size_def chunk_delim_def)

subsection \<open>Properties\<close>

text \<open>A two-chunk body with a chunk extension, for the concrete instances.\<close>

definition two_chunks :: "(bytes \<times> bytes) list" where
  "two_chunks = [(''; x=1'' @ [CR], ''ab''), ([CR], ''c'')]"

lemma two_chunks_facts:
  "\<forall>ch \<in> set two_chunks. chunk_ok ch" "payload two_chunks = ''abc''"
  "wire two_chunks @ last_wire [CR] [CR] =
     ''2; x=1'' @ CRLF @ ''ab'' @ CRLF @ ''1'' @ CRLF @ ''c'' @ CRLF @ ''0'' @ CRLF @ CRLF"
  by code_simp+

lemma forward_go:
  "forward_bytes n c = (Inr u, c1) \<Longrightarrow> out c1 @ data c1 = out c @ data c"
  using forward_bytes_forwards [of n c]
  by (auto simp: forwards_at_def write_all_def io_return_def at_end_def data_def concat_drop_segs
      drop_segs_all split: receiver.splits option.splits if_splits stream_end.splits)

text \<open>C22. Pass-through of a chunked body is the identity on the bytes: whatever the origin sends
  and whatever its segments, when the pass-through goes on to the next response, the bytes it
  delivered followed by the bytes still to read are the bytes there were.\<close>

theorem pass_through_identity:
  "pass_through_chunked c = (Inr (), c') \<Longrightarrow> out c' @ data c' = out c @ data c"
proof -
  have "post (\<lambda>_ c'. out c' @ data c' = out c @ data c) pass_through_chunked c"
  proof (induction c rule: pass_through_chunked.induct)
    case (1 c)
    show ?case
    proof (subst pass_through_eq, intro posts, goal_cases)
      case (1 l c1)
      then show ?case by (auto dest: read_line_go)
    next
      case (2 l c1 _ c2 n tr c3)
      then show ?case by (auto intro!: postI dest!: read_line_go write_go)
    next
      case (3 l c1 _ c2 n _ c3 crlf c4 _ c5)
      then have "post (\<lambda>_ c'. out c' @ data c' = out c5 @ data c5) pass_through_chunked c5"
        by (intro 1) assumption+
      with 3 show ?case
        by (auto elim!: post_weaken dest!: read_line_go write_go read_exact_go forward_go)
    qed
  qed
  then show "pass_through_chunked c = (Inr (), c') \<Longrightarrow> out c' @ data c' = out c @ data c"
    by (simp add: post_def)
qed

theorem pass_through_identity_witness:
  "\<exists>c'. pass_through_chunked (flat ((wire two_chunks @ last_wire [CR] [CR]) @ ''x'') Closed []) = (Inr (), c') \<and>
    out c' @ data c' = (wire two_chunks @ last_wire [CR] [CR]) @ ''x''"
proof -
  have "pass_through_chunked (flat ((wire two_chunks @ last_wire [CR] [CR]) @ ''x'') Closed []) =
     (Inr (), flat ''x'' Closed (wire two_chunks @ last_wire [CR] [CR]))"
    using flat_pass_wire [OF two_chunks_facts(1), of "[CR]" "[CR]" "''x''" Closed "[]"] by simp
  from this pass_through_identity [OF this] show ?thesis by simp
qed

text \<open>A well-formed chunked body, with any chunk extensions, is forwarded whole and nothing
  after it, however the origin's bytes are segmented.\<close>

lemma pass_through_forwards_body:
  assumes "data c = wire chs @ last_wire ext tr @ s" and "room c = Reads"
    and "\<forall>ch \<in> set chs. chunk_ok ch" and "ext_ok ext" and "LF \<notin> set tr"
  shows "\<exists>c'. pass_through_chunked c = (Inr (), c') \<and> data c' = s \<and>
    out c' = out c @ wire chs @ last_wire ext tr"
  using pass.from_flat_go [OF assms(2)] flat_pass_wire [OF assms(3-5)] assms(1)
  by (fastforce simp: same_view_def)

text \<open>C19. Reading a well-formed chunked body within the limit gives the concatenated payloads,
  consumes exactly the body and writes nothing.\<close>

theorem read_chunked_body_decodes:
  assumes "data c = wire chs @ last_wire ext tr @ s" and "room c = Reads"
    and "\<forall>ch \<in> set chs. chunk_ok ch" and "ext_ok ext" and "LF \<notin> set tr"
    and "length (payload chs) \<le> max_size" and "max_size \<le> isize_max"
  shows "\<exists>c'. read_chunked_body max_size c = (Inr (payload chs), c') \<and> data c' = s \<and> out c' = out c"
  using rdc.from_flat_go [OF assms(2), of max_size]
    flat_read_wire [OF assms(3-5), of "[]" max_size] assms(1,6,7)
  by (fastforce simp: same_view_def read_chunked_body_def)

theorem read_chunked_body_decodes_witness:
  "\<exists>c'. read_chunked_body 10 (flat ((wire two_chunks @ last_wire [CR] [CR]) @ ''x'') Open []) =
     (Inr ''abc'', c') \<and> data c' = ''x'' \<and> out c' = []"
  using read_chunked_body_decodes [OF _ _ two_chunks_facts(1), where ext = "[CR]" and tr = "[CR]"
      and s = "''x''" and max_size = 10
      and c = "flat ((wire two_chunks @ last_wire [CR] [CR]) @ ''x'') Open []"]
  by (simp add: two_chunks_facts(2) isize_max_def)

text \<open>C20. Memory bound: a body that is read is never longer than the limit, whatever the origin
  sends and even where the machine addition of the sizes wraps.\<close>

theorem read_chunked_body_bound:
  assumes "max_size \<le> isize_max" and "read_chunked_body max_size c = (Inr body, c')"
  shows "length body \<le> max_size"
proof -
  have "m \<le> isize_max \<Longrightarrow> length acc \<le> m \<Longrightarrow> post (\<lambda>b _. length b \<le> m) (read_chunks m acc) c"
    for m acc
  proof (induction m acc c rule: read_chunks.induct)
    case (1 m acc c)
    show ?case
    proof (subst read_chunks_eq, intro posts, goal_cases)
      case (3 l c1 n chunk c2 crlf c3)
      have "length chunk = n" using read_exact_view [of n c1] 3(7) by (auto split: if_splits stream_end.splits)
      moreover from this have "length acc + n < word_modulus"
        using 3(6) 1(2,3) by (simp add: word_modulus_def isize_max_def)
      ultimately have "length (acc @ chunk) \<le> m"
        using 3(5) by (simp add: wrapping_add_small)
      then show ?case by (rule 1(1) [OF 3(1-8) 1(2)])
    qed (use 1 in auto)
  qed
  from this [of max_size "[]"] assms show ?thesis
    by (simp add: read_chunked_body_def post_def)
qed

theorem read_chunked_body_bound_witness:
  "\<exists>c'. read_chunked_body 3 (flat ((wire two_chunks @ last_wire [CR] [CR]) @ []) Open []) =
     (Inr ''abc'', c') \<and> length ''abc'' \<le> 3"
proof -
  have "\<exists>c'. read_chunked_body 3 (flat ((wire two_chunks @ last_wire [CR] [CR]) @ []) Open []) =
     (Inr ''abc'', c')"
    using flat_read_wire [OF two_chunks_facts(1), of "[CR]" "[CR]" "[]" 3 "[]" Open "[]"]
    by (simp add: read_chunked_body_def two_chunks_facts(2) isize_max_def)
  then obtain c' where "read_chunked_body 3 (flat ((wire two_chunks @ last_wire [CR] [CR]) @ []) Open []) =
     (Inr ''abc'', c')" ..
  from this read_chunked_body_bound [OF _ this] show ?thesis by (auto simp: isize_max_def)
qed

text \<open>C21. Re-encoding round trip: a body that is not empty, written by \<open>write_chunked_body\<close>, is
  read back by \<open>read_chunked_body\<close>, which stops right after it.\<close>

theorem chunked_roundtrip:
  assumes "write_chunked_body body (flat [] e []) = (Inr (), d)"
    and "body \<noteq> []" and "length body \<le> max_size" and "max_size \<le> isize_max"
  shows "\<exists>c'. read_chunked_body max_size (flat (out d @ s) e' w) = (Inr body, c') \<and> data c' = s"
proof -
  from assms(1) have "out d = wire [([CR], body)] @ last_wire [CR] [CR]"
    by (auto simp: flat_write_chunked chunk_wire_def last_wire_def)
  moreover have "length body < word_modulus"
    using assms(3,4) by (simp add: word_modulus_def isize_max_def)
  ultimately show ?thesis
    using assms(2-4) flat_read_wire [of "[([CR], body)]" "[CR]" "[CR]" "[]" max_size s e' w]
    by (simp add: chunk_ok_def read_chunked_body_def)
qed

theorem chunked_roundtrip_witness:
  "\<exists>d c'. write_chunked_body ''abc'' (flat [] Closed []) = (Inr (), d) \<and>
    read_chunked_body 10 (flat (out d @ ''x'') Closed []) = (Inr ''abc'', c') \<and> data c' = ''x''"
proof -
  obtain d where d: "write_chunked_body ''abc'' (flat [] Closed []) = (Inr (), d)"
    by (simp add: flat_write_chunked)
  from chunked_roundtrip [OF d, of 10 "''x''" Closed "[]"] d show ?thesis
    by (auto simp: isize_max_def)
qed

text \<open>C38. The empty body is the exception: it is written as two zero chunks, and a reader stops
  after the first, leaving \<^verbatim>\<open>0 CR LF CR LF\<close> in front of the next response.\<close>

theorem write_empty_chunked_desynchronises:
  "\<exists>d. write_chunked_body [] (flat [] Closed []) = (Inr (), d) \<and>
     read_chunked_body max_size (flat (out d @ s) e w) = (Inr [], flat (''0'' @ CRLF @ CRLF @ s) e w)"
proof -
  have "last_wire [CR] [CR] @ ''0'' @ CRLF @ CRLF @ s = ''0'' @ CRLF @ CRLF @ ''0'' @ CRLF @ CRLF @ s"
    by (simp add: last_wire_def)
  with read_chunks_last [of "[CR]" "[CR]" max_size "[]" "''0'' @ CRLF @ CRLF @ s" e w]
  show ?thesis
    by (simp add: flat_write_chunked read_chunked_body_def format_hex_0)
qed

text \<open>C40. A chunk size close to the machine limit makes the size check wrap around: after a first
  chunk, it passes the check and the allocation of the chunk panics.\<close>

theorem oversized_chunk_panics:
  assumes "data c = chunk_wire ch @ format_hex n @ CRLF @ s" and "room c = Reads"
    and "chunk_ok ch" and "length (snd ch) \<le> max_size" and "max_size \<le> isize_max"
    and "n < word_modulus" and "word_modulus \<le> length (snd ch) + n"
  shows "fst (read_chunked_body max_size c) = Inl Panicked"
proof -
  let ?m = "length (snd ch)"
  have m: "?m \<le> isize_max" using assms(4,5) by simp
  have small: "wrapping_add 0 ?m = ?m"
    using m by (simp add: wrapping_add_def word_modulus_def isize_max_def)
  have wrap: "wrapping_add ?m n \<le> ?m"
    using assms(6,7) le_trans [OF mod_less_eq_dividend [of "?m + n - word_modulus" word_modulus]]
    by (simp add: wrapping_add_def le_mod_geq)
  have big: "isize_max < n"
    using assms(7) m by (simp add: word_modulus_def isize_max_def)
  have "fst (read_chunks max_size (snd ch) (flat (format_hex n @ [CR] @ LF # s) e w)) = Inl Panicked"
    for e w
    using wrap big assms(4,6)
    using assms(6) flat_size_line(1) [of "[CR]" n s e w] flat_size_line(2) [of "[CR]" n]
    by (subst read_chunks.simps) (simp add: bind_go io_throw_def)
  with small m assms(3,4) have
    "fst (read_chunked_body max_size (flat (data c) (fin c) (out c))) = Inl Panicked"
    unfolding assms(1) by (simp add: read_chunked_body_def read_chunks_chunk)
  with rdc.same_output [OF flat_view [OF assms(2)]] show ?thesis by simp
qed

theorem oversized_chunk_panics_witness:
  "fst (read_chunked_body 10
     (flat (chunk_wire ([CR], ''ab'') @ format_hex (2 ^ 64 - 1) @ CRLF) Open [])) = Inl Panicked"
  using oversized_chunk_panics [of _ "([CR], ''ab'')" "2 ^ 64 - 1" "[]" 10]
  by (simp add: chunk_ok_def word_modulus_def isize_max_def)

text \<open>A chunk size line is read back whatever the size, with any extension or trailing blank
  after it; sizes are always within the machine range and the only error is \<open>InvalidData\<close>.\<close>

lemma parse_chunk_size_roundtrip:
  assumes "n < word_modulus" and "after_size t"
  shows "parse_chunk_size (format_hex n @ t) = Inr n \<and>
    (case parse_chunk_size line of Inl e \<Rightarrow> e = InvalidData | Inr m \<Rightarrow> m < word_modulus)"
  using parse_chunk_size_format [OF assms] parse_chunk_size_error parse_chunk_size_bound
  by (simp split: sum.split)

end
