(* ===== verification/Headers.thy ===== *)
theory Headers
  imports Chunked
begin

section \<open>Response heads (tcp\_proxy.rs)\<close>

text \<open>
  Reading the head of a response line by line and what is learnt from each line
  (Content-Length, Transfer-Encoding), the decision \<open>should_rewrite_content\<close>, and
  \<open>update_content_length\<close>. The lemmas show that what is learnt is a function of the lines of
  the decoded head, and how it changes when the length is updated.
\<close>

subsection \<open>The code\<close>

text \<open>The two header checks of the reading loop on one raw line.\<close>

definition scan_line :: "nat option \<times> bool \<Rightarrow> bytes \<Rightarrow> nat option \<times> bool" where
  "scan_line st line =
     (let line_str = from_utf8_lossy line;
          content_length =
            (if starts_with (to_lowercase line_str) ''content-length:''
             then (case nth_piece 1 (split_on (CHR '':'') line_str) of
                     None \<Rightarrow> fst st
                   | Some len_str \<Rightarrow> parse_usize (trim len_str))
             else fst st);
          is_chunked =
            (if starts_with (to_lowercase line_str) ''transfer-encoding:''
                \<and> contains (to_lowercase line_str) ''chunked''
             then True else snd st)
      in (content_length, is_chunked))"

text \<open>The loop over the head; \<open>None\<close> when the origin closed before the head was complete.\<close>

function read_head :: "bytes \<Rightarrow> nat option \<times> bool \<Rightarrow> (bytes \<times> nat option \<times> bool) option io" where
  "read_head header_buf st c =
     io_bind read_line_bytes (\<lambda>line c.
       if line = [] then io_return None c
       else if line = CRLF \<or> line = [LF]
       then io_return (Some (header_buf @ line, scan_line st line)) c
       else read_head (header_buf @ line) (scan_line st line) c) c"
  by pat_completeness auto
termination
  by (relation "measure (\<lambda>(header_buf, st, c). length (data c))") (auto dest!: read_line_less)

declare read_head.simps [simp del]

definition should_rewrite_content :: "bytes \<Rightarrow> bool" where
  "should_rewrite_content headers =
     (case find (\<lambda>line. starts_with line ''content-type:'') (lines (to_lowercase headers)) of
        None \<Rightarrow> False
      | Some line \<Rightarrow>
          (let content_type =
             trim (case nth_piece 1 (split_on (CHR '':'') line) of None \<Rightarrow> [] | Some p \<Rightarrow> p)
           in starts_with content_type ''text/'' \<or> contains content_type ''xml'' \<or>
              contains content_type ''json'' \<or> contains content_type ''html''))"

definition is_length_line :: "bytes \<Rightarrow> bool" where
  "is_length_line line \<longleftrightarrow> starts_with (to_lowercase line) ''content-length:''"

definition update_content_length :: "bytes \<Rightarrow> nat \<Rightarrow> bytes" where
  "update_content_length headers new_length =
     concat (map (\<lambda>line.
       if is_length_line line then ''Content-Length: '' @ format_usize new_length @ CRLF
       else line @ CRLF) (lines headers))"

subsection \<open>Lowering and searching stop at line ends\<close>

lemma to_lowercase_split:
  "ascii a \<Longrightarrow> to_lowercase (s @ a # t) = to_lowercase s @ lower_ascii a # to_lowercase t"
proof (induction s rule: to_lowercase.induct)
  case 1
  then show ?case by (simp add: to_lowercase_ascii_Cons del: to_lowercase.simps(2))
next
  case (2 b s)
  have na: "a \<noteq> CHR 0x84" "a \<noteq> CHR 0xAA" "a \<noteq> CHR 0xB0"
    using 2(4) by (auto simp: ascii_def code_def)
  have "starts_with (s @ a # t) [CHR 0x84, CHR 0xAA] \<longleftrightarrow> starts_with s [CHR 0x84, CHR 0xAA]"
    "starts_with (s @ a # t) [CHR 0xB0] \<longleftrightarrow> starts_with s [CHR 0xB0]"
    using na by (cases s; cases "tl s"; auto simp: starts_with_def)+
  moreover have "starts_with s [CHR 0x84, CHR 0xAA] \<Longrightarrow> drop 2 (s @ a # t) = drop 2 s @ a # t"
    "starts_with s [CHR 0xB0] \<Longrightarrow> drop 1 (s @ a # t) = drop 1 s @ a # t"
    by (cases s; cases "tl s"; auto simp: starts_with_def)+
  ultimately show ?case using 2 by auto
qed

lemma starts_with_split:
  "b \<notin> set pat \<Longrightarrow> starts_with (s @ b # t) pat \<longleftrightarrow> starts_with s pat"
proof (induction s arbitrary: pat)
  case Nil
  then show ?case by (cases pat) (auto simp: starts_with_def)
next
  case (Cons x s)
  then show ?case by (cases pat) (auto simp: starts_with_prefix)
qed

lemma contains_split:
  assumes "b \<notin> set pat" and "pat \<noteq> []"
  shows "contains (s @ b # t) pat \<longleftrightarrow> contains s pat \<or> contains t pat"
proof (induction s)
  case Nil
  then show ?case using assms by (cases pat) (auto simp: starts_with_def)
next
  case (Cons x s)
  then show ?case using starts_with_split [OF assms(1), of "x # s" t] by simp
qed

subsection \<open>What a line tells depends on its text only\<close>

lemma ascii_line_end [simp]: "ascii LF" "ascii CR" "lower_ascii LF = LF" "lower_ascii CR = CR"
  by (simp_all add: ascii_def code_def lower_ascii_def)

text \<open>What \<open>scan_line\<close> learns from the decoded text of a line.\<close>

definition length_value :: "bytes \<Rightarrow> nat option" where
  "length_value l =
     Option.bind (nth_piece 1 (split_on (CHR '':'') l)) (\<lambda>p. parse_usize (trim p))"

definition is_chunked_line :: "bytes \<Rightarrow> bool" where
  "is_chunked_line l \<longleftrightarrow>
     starts_with (to_lowercase l) ''transfer-encoding:'' \<and> contains (to_lowercase l) ''chunked''"

definition scan_text :: "bytes \<Rightarrow> nat option \<times> bool \<Rightarrow> nat option \<times> bool" where
  "scan_text l st =
     (if is_length_line l then length_value l else fst st, is_chunked_line l \<or> snd st)"

lemma is_length_line_snoc: "ascii b \<Longrightarrow> b = CR \<or> b = LF \<Longrightarrow> is_length_line (l @ [b]) = is_length_line l"
  by (auto simp: is_length_line_def to_lowercase_split starts_with_split)

lemma is_chunked_line_snoc:
  "b = CR \<or> b = LF \<Longrightarrow> is_chunked_line (l @ [b]) = is_chunked_line l"
  by (auto simp: is_chunked_line_def to_lowercase_split starts_with_split contains_split)

lemma length_value_snoc: "b = CR \<or> b = LF \<Longrightarrow> length_value (l @ [b]) = length_value l"
proof (cases "CHR '':'' \<in> set l")
  case True
  assume b: "b = CR \<or> b = LF"
  then have w: "ws1 b" by (auto simp: ws1_def code_def)
  from True obtain p q where l: "l = p @ CHR '':'' # q" "CHR '':'' \<notin> set p" by (rule first_split)
  show ?thesis
    using l b w
    by (cases "CHR '':'' \<in> set q")
       (auto simp: length_value_def nth_piece_1 [unfolded One_nat_def] trim_snoc elim!: first_split)
qed (auto simp: length_value_def nth_piece_1 [unfolded One_nat_def])

lemma scan_text_snoc: "b = CR \<or> b = LF \<Longrightarrow> scan_text (l @ [b]) = scan_text l"
  by (auto simp: scan_text_def is_length_line_snoc is_chunked_line_snoc length_value_snoc)

lemma strip_cr_cases: "strip_cr l = l \<or> l = strip_cr l @ [CR]"
  by (simp add: strip_cr_def) (metis append_butlast_last_id)

lemma scan_text_strip_cr: "scan_text (strip_cr l) = scan_text l"
  using strip_cr_cases [of l] scan_text_snoc by metis

text \<open>A line that starts with the header's name has a colon, so its value is what is parsed.\<close>

lemma lower_ascii_colon: "lower_ascii b = CHR '':'' \<longleftrightarrow> b = CHR '':''"
  by (subst (1 2) code_eq_iff [symmetric]) (simp add: lower_ascii_code, auto simp: code_def)

lemma to_lowercase_colon: "CHR '':'' \<in> set (to_lowercase l) \<Longrightarrow> CHR '':'' \<in> set l"
  by (induction l rule: to_lowercase.induct)
     (auto simp: lower_ascii_colon eq_commute [of "CHR '':''"] split: if_splits dest: in_set_dropD)

lemma is_length_line_colon:
  assumes "is_length_line l"
  shows "nth_piece 1 (split_on (CHR '':'') l) \<noteq> None"
proof -
  from assms have "CHR '':'' \<in> set (to_lowercase l)"
    by (auto simp: is_length_line_def starts_with_prefix elim!: prefixE)
  then obtain p q where "l = p @ CHR '':'' # q" "CHR '':'' \<notin> set p"
    using first_split [OF to_lowercase_colon] by metis
  then show ?thesis by (simp add: nth_piece_1 [unfolded One_nat_def])
qed

lemma scan_line_text: "scan_line st l = scan_text (from_utf8_lossy l) st"
  using is_length_line_colon [of "from_utf8_lossy l"]
  by (auto simp: scan_line_def scan_text_def Let_def is_length_line_def is_chunked_line_def
      length_value_def)

subsection \<open>Heads on the wire\<close>

text \<open>A head is its lines, each ended by a line feed (a carriage return before it is kept in the
  line), and the empty line that ends it.\<close>

definition head_line :: "bytes \<Rightarrow> bool" where
  "head_line l \<longleftrightarrow> LF \<notin> set l \<and> l \<noteq> [] \<and> l \<noteq> [CR]"

definition head_ok :: "bytes list \<Rightarrow> bytes \<Rightarrow> bool" where
  "head_ok ls t \<longleftrightarrow> list_all head_line ls \<and> (t = [LF] \<or> t = CRLF)"

definition head_wire :: "bytes list \<Rightarrow> bytes \<Rightarrow> bytes" where
  "head_wire ls t = concat (map (\<lambda>l. l @ [LF]) ls) @ t"

text \<open>What the reading loop knows at the end of the head.\<close>

definition head_info :: "bytes list \<Rightarrow> nat option \<times> bool" where
  "head_info ls = fold (\<lambda>l. scan_text (from_utf8_lossy l)) ls (None, False)"

lemma head_wire_simps [simp]:
  "head_wire [] t = t" "head_wire (l # ls) t = l @ LF # head_wire ls t"
  by (simp_all add: head_wire_def)

lemma lossy_snoc_LF [simp]: "from_utf8_lossy (l @ [LF]) = from_utf8_lossy l @ [LF]"
  by (simp add: lossy_ascii_split)

lemma scan_line_LF: "scan_line st (l @ [LF]) = scan_text (from_utf8_lossy l) st"
  by (simp add: scan_line_text scan_text_snoc)

lemma scan_text_Nil [simp]: "scan_text [] st = st"
  by (simp add: scan_text_def is_length_line_def is_chunked_line_def starts_with_def)

lemma scan_line_end: "t = [LF] \<or> t = CRLF \<Longrightarrow> scan_line st t = st"
  using scan_line_LF [of st "[]"] scan_line_LF [of st "[CR]"] scan_text_snoc [of CR "[]"]
  by auto

lemma flat_read_head:
  assumes "head_ok ls t"
  shows "read_head acc st (flat (head_wire ls t @ s) e w) =
    (Inr (Some (acc @ head_wire ls t, fold (\<lambda>l. scan_text (from_utf8_lossy l)) ls st)), flat s e w)"
  using assms
proof (induction ls arbitrary: acc st)
  case Nil
  then have t: "t = [LF] \<or> t = CRLF" by (simp add: head_ok_def)
  then have "read_line_bytes (flat (t @ s) e w) = (Inr t, flat s e w)"
    using flat_read_line [of "[]" s e w] flat_read_line [of "[CR]" s e w] by auto
  with t show ?case
    by (subst read_head.simps) (auto simp: bind_go scan_line_end io_return_def)
next
  case (Cons l ls)
  then have l: "LF \<notin> set l" "l \<noteq> []" "l \<noteq> [CR]" and ls: "head_ok ls t"
    by (auto simp: head_ok_def head_line_def)
  have "l @ [LF] \<noteq> CRLF" "l @ [LF] \<noteq> [LF]" using l by auto
  with l Cons.IH [OF ls] show ?case
    by (subst read_head.simps) (simp add: bind_go flat_read_line scan_line_LF)
qed

lemma lossy_head_wire:
  assumes "t = [LF] \<or> t = CRLF"
  shows "from_utf8_lossy (head_wire ls t) = head_wire (map from_utf8_lossy ls) t"
  using assms by (induction ls) (auto simp: lossy_ascii_split)

lemma head_ok_lossy: "head_ok ls t \<Longrightarrow> head_ok (map from_utf8_lossy ls) t"
  by (auto simp: head_ok_def head_line_def list_all_iff lossy_single)

lemma strip_cr_Nil [simp]: "strip_cr [] = []" "strip_cr [CR] = []"
  by (simp_all add: strip_cr_def)

lemma lines_end: "t = [LF] \<or> t = CRLF \<Longrightarrow> lines t = [[]]"
  using lines_line [of "[]" "[]"] lines_line [of "[CR]" "[]"] by auto

lemma lines_head_wire:
  assumes "head_ok ls t"
  shows "lines (head_wire ls t) = map strip_cr ls @ [[]]"
  using assms by (induction ls) (auto simp: head_ok_def head_line_def lines_end lines_line)

subsection \<open>The updated head\<close>

text \<open>One line of the updated head.\<close>

definition updated_line :: "nat \<Rightarrow> bytes \<Rightarrow> bytes" where
  "updated_line n l =
     (if is_length_line l then ''Content-Length: '' @ format_usize n else strip_cr l) @ [CR]"

lemma is_length_line_strip_cr: "is_length_line (strip_cr l) = is_length_line l"
  using strip_cr_cases [of l] is_length_line_snoc [of CR "strip_cr l"] by fastforce

lemma update_head_wire:
  assumes "head_ok ls t"
  shows "update_content_length (head_wire ls t) n = head_wire (map (updated_line n) ls) CRLF"
proof -
  have e: "\<not> is_length_line []" by (simp add: is_length_line_def starts_with_def)
  show ?thesis
    unfolding update_content_length_def lines_head_wire [OF assms]
    by (simp add: e comp_def is_length_line_strip_cr updated_line_def head_wire_def)
       (rule arg_cong [of _ _ concat], simp)
qed

lemma format_usize_free [simp]:
  "LF \<notin> set (format_usize n)" "CR \<notin> set (format_usize n)" "CHR '':'' \<notin> set (format_usize n)"
  by (simp_all add: format_usize_def dec.format_free)

lemma format_usize_token [simp]: "token (format_usize n)"
  by (simp add: format_usize_def dec.format_token)

lemma set_strip_cr: "set (strip_cr l) \<subseteq> set l"
  by (auto simp: strip_cr_def dest: in_set_butlastD)

lemma updated_head_line: "head_line l \<Longrightarrow> head_line (updated_line n l)"
  using set_strip_cr [of l] strip_cr_cases [of l]
  by (auto simp: head_line_def updated_line_def)

lemma updated_head_ok: "head_ok ls t \<Longrightarrow> head_ok (map (updated_line n) ls) CRLF"
  by (auto simp: head_ok_def list_all_iff updated_head_line)

lemma lower_length_name: "map lower_ascii ''Content-Length: '' = ''content-length: ''"
  by code_simp

text \<open>The new length line says the new length and nothing about chunks.\<close>

lemma new_length_line:
  assumes "n < word_modulus"
  shows "is_length_line (''Content-Length: '' @ format_usize n @ s)"
    and "length_value (''Content-Length: '' @ format_usize n) = Some n"
    and "\<not> is_chunked_line (''Content-Length: '' @ format_usize n)"
proof -
  have low: "to_lowercase (''Content-Length: '' @ x) = ''content-length: '' @ to_lowercase x" for x
    using to_lowercase_ascii_append [of "''Content-Length: ''" x] lower_length_name
    by (simp add: ascii_def code_def del: to_lowercase.simps)
  show "is_length_line (''Content-Length: '' @ format_usize n @ s)"
    unfolding is_length_line_def low by (simp add: starts_with_def)
  show "\<not> is_chunked_line (''Content-Length: '' @ format_usize n)"
    unfolding is_chunked_line_def low by (simp add: starts_with_def)
  have "trim (CHR '' '' # format_usize n) = format_usize n"
    using trim_token [of "'' ''" "format_usize n" "[]"] by (simp add: ws1_def code_def)
  then show "length_value (''Content-Length: '' @ format_usize n) = Some n"
    using assms by (simp add: length_value_def nth_piece_1 [unfolded One_nat_def] parse_usize_format)
qed

lemma lossy_strip_cr:
  "from_utf8_lossy l = l \<Longrightarrow> from_utf8_lossy (strip_cr l @ [CR]) = strip_cr l @ [CR]"
proof -
  assume l: "from_utf8_lossy l = l"
  have "utf8_valid (strip_cr l)"
    using strip_cr_cases [of l] utf8_valid_lossy [of l] utf8_valid_ascii_split [of CR "strip_cr l" "[]"]
    by (simp add: l) metis
  then have "utf8_valid (strip_cr l @ [CR])" by (simp add: utf8_valid_ascii_split)
  then show ?thesis by (rule lossy_valid)
qed

lemma updated_line_valid: "from_utf8_lossy l = l \<Longrightarrow> from_utf8_lossy (updated_line n l) = updated_line n l"
proof -
  have "list_all ascii (''Content-Length: '' @ format_usize n @ [CR])"
    using list_all_asciiD [OF format_usize_token] by (simp add: ascii_def code_def)
  from lossy_valid [OF utf8_valid_all_ascii [OF this]] show "from_utf8_lossy l = l \<Longrightarrow> ?thesis"
    by (simp add: updated_line_def lossy_strip_cr)
qed

lemma scan_updated_line:
  assumes "n < word_modulus"
  shows "scan_text (updated_line n l) st =
    (if is_length_line l then Some n else fst st,
     (\<not> is_length_line l \<and> is_chunked_line l) \<or> snd st)"
  using new_length_line(1) [OF assms, of "[]"] new_length_line(2,3) [OF assms] scan_text_strip_cr [of l]
  by (simp add: updated_line_def scan_text_snoc) (simp add: scan_text_def)

text \<open>A line is not both a length and a transfer-encoding line.\<close>

lemma starts_with_hd: "starts_with s p \<Longrightarrow> p \<noteq> [] \<Longrightarrow> s \<noteq> [] \<and> hd s = hd p"
  by (cases s; cases p) (auto simp: starts_with_def)

lemma length_not_chunked: "is_length_line l \<Longrightarrow> \<not> is_chunked_line l"
  by (auto simp: is_length_line_def is_chunked_line_def dest!: starts_with_hd)

lemma head_info_fold:
  "snd (fold (\<lambda>l. scan_text (from_utf8_lossy l)) ls st) \<longleftrightarrow>
     snd st \<or> (\<exists>l \<in> set ls. is_chunked_line (from_utf8_lossy l))"
  by (induction ls arbitrary: st) (auto simp: scan_text_def)

lemma head_info_no_length:
  "(\<forall>l \<in> set ls. \<not> is_length_line (from_utf8_lossy l)) \<Longrightarrow>
     fst (fold (\<lambda>l. scan_text (from_utf8_lossy l)) ls st) = fst st"
  by (induction ls arbitrary: st) (auto simp: scan_text_def)

lemma fold_updated:
  assumes "n < word_modulus"
  shows "fold (\<lambda>l. scan_text (updated_line n l)) ls st =
    (if \<exists>l \<in> set ls. is_length_line l then Some n else fst st,
     snd st \<or> (\<exists>l \<in> set ls. is_chunked_line l))"
  by (induction ls arbitrary: st) (auto simp: scan_updated_line [OF assms] dest: length_not_chunked)

lemma head_info_updated:
  assumes "n < word_modulus"
  shows "head_info (map (updated_line n \<circ> from_utf8_lossy) ls) =
    (if \<exists>l \<in> set ls. is_length_line (from_utf8_lossy l) then Some n else None, snd (head_info ls))"
  using fold_updated [OF assms, of "map from_utf8_lossy ls" "(None, False)"]
  by (simp add: head_info_def fold_map comp_def updated_line_valid head_info_fold)

lemma head_info_length_line:
  "fst (head_info ls) = Some m \<Longrightarrow> \<exists>l \<in> set ls. is_length_line (from_utf8_lossy l)"
  using head_info_no_length [of ls "(None, False)"] by (force simp: head_info_def)

lemma head_info_lossy: "head_info (map from_utf8_lossy ls) = head_info ls"
  by (simp add: head_info_def fold_map comp_def)

subsection \<open>The contract of the head reader\<close>

lemmas read_head_eq = ext [OF read_head.simps]

lemma grows_read_head [simp, behaves]: "grows_at (read_head hb st) c"
proof (induction hb st c rule: read_head.induct)
  case (1 hb st c)
  show ?case
    by (subst read_head_eq) (intro behaves 1, assumption+)
qed

lemma behaves_read_head [simp, behaves]: "behaves_at (read_head hb st) c"
proof (induction hb st c rule: read_head.induct)
  case (1 hb st c)
  show ?case
    by (subst read_head_eq) (intro behaves 1, assumption+)
qed

interpretation rdh: stream_op "read_head hb st"
  by (rule stream_opI) simp

text \<open>A head that was read is never empty, and is what was consumed.\<close>

lemma read_head_post:
  "post (\<lambda>r c'. \<forall>hb' st'. r = Some (hb', st') \<longrightarrow>
     (\<exists>x. x \<noteq> [] \<and> hb' = hb @ x \<and> data c = x @ data c') \<and> out c' = out c) (read_head hb st) c"
proof (induction hb st c rule: read_head.induct)
  case (1 hb st c)
  show ?case
  proof (subst read_head_eq, intro posts, goal_cases)
    case (3 l c1)
    then have "post (\<lambda>r c'. \<forall>hb' st'. r = Some (hb', st') \<longrightarrow>
      (\<exists>x. x \<noteq> [] \<and> hb' = (hb @ l) @ x \<and> data c1 = x @ data c') \<and> out c' = out c1)
        (read_head (hb @ l) (scan_line st l)) c1"
      by (intro 1) assumption+
    with 3 show ?case
      by (fastforce elim!: post_weaken dest!: read_line_go)
  qed (auto dest!: read_line_go)
qed

subsection \<open>The decision to rewrite\<close>

text \<open>The decision is made by the first Content-Type line, on its lowered text.\<close>

definition is_type_line :: "bytes \<Rightarrow> bool" where
  "is_type_line l \<longleftrightarrow> starts_with (to_lowercase l) ''content-type:''"

definition rewritable_type :: "bytes \<Rightarrow> bool" where
  "rewritable_type l =
     (let ct = trim (case nth_piece 1 (split_on (CHR '':'') (to_lowercase l)) of None \<Rightarrow> [] | Some p \<Rightarrow> p)
      in starts_with ct ''text/'' \<or> contains ct ''xml'' \<or> contains ct ''json'' \<or> contains ct ''html'')"

lemma piece_snoc:
  assumes "b = CR \<or> b = LF"
  shows "trim (case nth_piece 1 (split_on (CHR '':'') (l @ [b])) of None \<Rightarrow> [] | Some p \<Rightarrow> p) =
    trim (case nth_piece 1 (split_on (CHR '':'') l) of None \<Rightarrow> [] | Some p \<Rightarrow> p)"
proof (cases "CHR '':'' \<in> set l")
  case True
  from assms have b: "ws1 b" "b \<noteq> CHR '':''" by (auto simp: ws1_def code_def)
  from True obtain p q where l: "l = p @ CHR '':'' # q" "CHR '':'' \<notin> set p" by (rule first_split)
  show ?thesis
  proof (cases "CHR '':'' \<in> set q")
    case True
    then obtain q1 q2 where "q = q1 @ CHR '':'' # q2" "CHR '':'' \<notin> set q1" by (rule first_split)
    with l show ?thesis by (simp add: nth_piece_1 [unfolded One_nat_def])
  next
    case False
    with l b show ?thesis by (simp add: nth_piece_1 [unfolded One_nat_def] trim_snoc)
  qed
qed (use assms in \<open>auto simp: nth_piece_1 [unfolded One_nat_def]\<close>)

lemma type_snoc:
  assumes "b = CR \<or> b = LF"
  shows "is_type_line (l @ [b]) = is_type_line l" "rewritable_type (l @ [b]) = rewritable_type l"
  using assms piece_snoc [of b "to_lowercase l"]
  by (auto simp: is_type_line_def rewritable_type_def to_lowercase_split starts_with_split
      simp del: One_nat_def)

lemma type_strip_cr: "is_type_line (strip_cr l) = is_type_line l"
    "rewritable_type (strip_cr l) = rewritable_type l"
  using strip_cr_cases [of l] type_snoc [of CR] by metis+

lemma lower_head_wire:
  assumes "t = [LF] \<or> t = CRLF"
  shows "to_lowercase (head_wire ls t) = head_wire (map to_lowercase ls) t"
proof -
  have "to_lowercase t = t"
    using assms by (auto simp: starts_with_def)
  then show ?thesis by (induction ls) (simp_all add: to_lowercase_split)
qed

lemma to_lowercase_LF: "LF \<in> set (to_lowercase l) \<Longrightarrow> LF \<in> set l"
proof (rule ccontr)
  have e: "lower_ascii b = LF \<longleftrightarrow> b = LF" for b
    by (subst (1 2) code_eq_iff [symmetric]) (simp add: lower_ascii_code, auto simp: code_def)
  show "LF \<in> set (to_lowercase l) \<Longrightarrow> LF \<notin> set l \<Longrightarrow> False"
    by (induction l rule: to_lowercase.induct)
       (auto simp: e eq_commute [of LF] split: if_splits dest: in_set_dropD)
qed

lemma to_lowercase_Nil_iff [simp]: "to_lowercase l = [] \<longleftrightarrow> l = []"
  by (cases l) auto

lemma to_lowercase_CR: "to_lowercase l = [CR] \<Longrightarrow> l = [CR]"
proof -
  have e: "lower_ascii b = CR \<longleftrightarrow> b = CR" for b
    by (subst (1 2) code_eq_iff [symmetric]) (simp add: lower_ascii_code, auto simp: code_def)
  show "to_lowercase l = [CR] \<Longrightarrow> l = [CR]"
    by (cases l) (auto simp: e split: if_splits)
qed

lemma head_ok_lower: "head_ok ls t \<Longrightarrow> head_ok (map to_lowercase ls) t"
  by (auto simp: head_ok_def head_line_def list_all_iff dest: to_lowercase_LF to_lowercase_CR)

definition head_rewritable :: "bytes list \<Rightarrow> bool" where
  "head_rewritable ls = (case find is_type_line ls of None \<Rightarrow> False | Some l \<Rightarrow> rewritable_type l)"

lemma piece_strip_cr:
  "trim (case nth_piece 1 (split_on (CHR '':'') (strip_cr l)) of None \<Rightarrow> [] | Some p \<Rightarrow> p) =
   trim (case nth_piece 1 (split_on (CHR '':'') l) of None \<Rightarrow> [] | Some p \<Rightarrow> p)"
  using strip_cr_cases [of l] piece_snoc [of CR "strip_cr l"] by metis

lemma starts_with_strip_cr: "CR \<notin> set p \<Longrightarrow> starts_with (strip_cr l) p = starts_with l p"
  using strip_cr_cases [of l] starts_with_split [of CR p "strip_cr l" "[]"] by metis

lemma should_rewrite_head:
  assumes "head_ok ls t"
  shows "should_rewrite_content (head_wire ls t) = head_rewritable ls"
proof -
  have t: "t = [LF] \<or> t = CRLF" using assms by (simp add: head_ok_def)
  have "should_rewrite_content (head_wire ls t) =
     (case find (\<lambda>line. starts_with line ''content-type:'')
             (map strip_cr (map to_lowercase ls) @ [[]]) of
        None \<Rightarrow> False
      | Some line \<Rightarrow>
          (let content_type =
             trim (case nth_piece 1 (split_on (CHR '':'') line) of None \<Rightarrow> [] | Some p \<Rightarrow> p)
           in starts_with content_type ''text/'' \<or> contains content_type ''xml'' \<or>
              contains content_type ''json'' \<or> contains content_type ''html''))"
    unfolding should_rewrite_content_def lower_head_wire [OF t]
      lines_head_wire [OF head_ok_lower [OF assms]] ..
  also have "\<dots> = head_rewritable ls"
    by (induction ls)
       (auto simp: head_rewritable_def is_type_line_def rewritable_type_def starts_with_strip_cr
         piece_strip_cr simp del: One_nat_def, simp add: starts_with_def)
  finally show ?thesis .
qed

lemma starts_with_nth: "starts_with s p \<Longrightarrow> i < length p \<Longrightarrow> s ! i = p ! i"
  by (metis nth_take starts_with_def)

lemma updated_type: "is_type_line (updated_line n l) = is_type_line l"
  "is_type_line l \<Longrightarrow> rewritable_type (updated_line n l) = rewritable_type l"
proof -
  have "\<not> is_type_line (''Content-Length: '' @ x)" for x
    using to_lowercase_ascii_append [of "''Content-Length: ''" x] lower_length_name
    by (simp add: is_type_line_def ascii_def code_def starts_with_def del: to_lowercase.simps)
  moreover have "is_length_line l \<Longrightarrow> \<not> is_type_line l"
    using starts_with_nth [of "to_lowercase l" "''content-length:''" 8]
      starts_with_nth [of "to_lowercase l" "''content-type:''" 8]
    by (auto simp: is_type_line_def is_length_line_def)
  ultimately show "is_type_line (updated_line n l) = is_type_line l"
    "is_type_line l \<Longrightarrow> rewritable_type (updated_line n l) = rewritable_type l"
    using type_snoc [of CR] type_strip_cr by (auto simp: updated_line_def)
qed

lemma head_rewritable_updated: "head_rewritable (map (updated_line n) ls) = head_rewritable ls"
  by (induction ls) (auto simp: head_rewritable_def updated_type)

subsection \<open>Properties\<close>

text \<open>Reading a head consumes exactly its lines and the empty line, however segmented, and
  learns from the lines what \<open>head_info\<close> says.\<close>

lemma read_head_complete:
  assumes "data c = head_wire ls t @ s" and "head_ok ls t" and "room c = Reads"
  shows "\<exists>c'. read_head [] (None, False) c = (Inr (Some (head_wire ls t, head_info ls)), c') \<and>
    data c' = s \<and> out c' = out c"
  using rdh.from_flat_go [OF assms(3)] flat_read_head [OF assms(2), of "[]" "(None, False)" s] assms(1)
  by (fastforce simp: same_view_def head_info_def)

text \<open>A Content-Length line is recognised whatever the case of its name and the blanks around
  its value, and gives the value it was printed from.\<close>

lemma content_length_recognised:
  assumes "map lower_ascii name = ''content-length:''"
    and "list_all ws1 p" and "list_all ws1 q" and "n < word_modulus"
  shows "scan_line st (name @ p @ format_usize n @ q) = (Some n, snd st)"
proof -
  let ?l = "name @ p @ format_usize n @ q"
  have colon: "CHR '':'' \<notin> set p" "CHR '':'' \<notin> set q"
    using assms(2,3) by (auto simp: list_all_iff ws1_def code_def)
  have name: "name = butlast name @ [CHR '':'']" "CHR '':'' \<notin> set (butlast name)"
  proof -
    have "map lower_ascii (butlast name) = butlast ''content-length:''"
      using assms(1) by (simp add: map_butlast)
    then have "CHR '':'' \<notin> lower_ascii ` set (butlast name)"
      by (simp flip: set_map)
    then show "CHR '':'' \<notin> set (butlast name)"
      using lower_ascii_colon by (metis imageI)
    have "name \<noteq> []" "lower_ascii (last name) = last ''content-length:''"
      using assms(1) by (auto simp flip: last_map)
    then show "name = butlast name @ [CHR '':'']"
      by (metis append_butlast_last_id last.simps lower_ascii_colon list.distinct(1))
  qed
  have "list_all ascii (map lower_ascii name)"
    using assms(1) by (simp add: ascii_def code_def)
  then have an: "list_all ascii name" by (simp add: list_all_iff)
  with assms(2,3) have a: "list_all ascii ?l"
    using list_all_asciiD [OF format_usize_token] by (auto simp: list_all_iff ws1_ascii)
  have "nth_piece 1 (split_on (CHR '':'') ((butlast name @ [CHR '':'']) @ p @ format_usize n @ q)) =
      Some (p @ format_usize n @ q)"
    using colon name(2) by (simp add: nth_piece_1 [unfolded One_nat_def])
  then have v: "nth_piece 1 (split_on (CHR '':'') ?l) = Some (p @ format_usize n @ q)"
    unfolding name(1) [symmetric] .
  show ?thesis
    using trim_token [OF assms(2) format_usize_token assms(3), of n] assms(1,4)
      to_lowercase_ascii_append [OF an] v
    by (simp add: scan_line_text lossy_valid [OF utf8_valid_all_ascii [OF a]] scan_text_def
        is_length_line_def length_value_def is_chunked_line_def parse_usize_format)
      (simp add: starts_with_def)
qed

text \<open>C18. Updating the length of a decoded head with a length line gives a well-formed head that
  declares the new length, keeps the transfer coding and the rewriting decision, and keeps every
  other line.\<close>

theorem update_content_length_correct:
  assumes "head_ok ls t" and "list_all utf8_valid ls" and "n < word_modulus"
    and "l \<in> set ls" and "is_length_line l"
  shows "\<exists>ls'. update_content_length (head_wire ls t) n = head_wire ls' CRLF \<and> head_ok ls' CRLF \<and>
    head_info ls' = (Some n, snd (head_info ls)) \<and> head_rewritable ls' = head_rewritable ls \<and>
    length ls' = length ls \<and>
    (\<forall>i < length ls. \<not> is_length_line (ls ! i) \<longrightarrow> ls' ! i = strip_cr (ls ! i) @ [CR])"
proof -
  let ?ls = "map (updated_line n) ls"
  have v: "map from_utf8_lossy ls = ls"
    using assms(2) by (auto simp: list_all_iff lossy_valid intro: map_idI)
  then have m: "?ls = map (updated_line n \<circ> from_utf8_lossy) ls" by (metis list.map_comp)
  have "head_info ?ls = (Some n, snd (head_info ls))"
    unfolding m head_info_updated [OF assms(3)] using assms(2,4,5)
    by (auto simp: list_all_iff lossy_valid)
  then show ?thesis
    by (intro exI [of _ ?ls])
       (simp add: update_head_wire [OF assms(1)] updated_head_ok [OF assms(1)]
         head_rewritable_updated updated_line_def)
qed

theorem update_content_length_correct_witness:
  "\<exists>ls'. update_content_length (''HTTP/1.0 200 OK'' @ [LF] @ ''content-length: 3'' @ CRLF @ CRLF) 12 =
     head_wire ls' CRLF \<and> head_info ls' = (Some 12, False)"
proof -
  let ?ls = "[''HTTP/1.0 200 OK'', ''content-length: 3'' @ [CR]]"
  have "head_ok ?ls CRLF" "list_all utf8_valid ?ls" "is_length_line (''content-length: 3'' @ [CR])"
    "snd (head_info ?ls) = False"
    by code_simp+
  with update_content_length_correct [of ?ls CRLF 12 "''content-length: 3'' @ [CR]"]
  show ?thesis by (auto simp: word_modulus_def)
qed

text \<open>The first Content-Type line decides whether a body is rewritten, by its lowered value; a
  head without one is never rewritten.\<close>

lemma content_type_decides:
  assumes "head_ok ls t"
  shows "should_rewrite_content (head_wire ls t) =
    (case dropWhile (\<lambda>l. \<not> is_type_line l) ls of [] \<Rightarrow> False | l # _ \<Rightarrow> rewritable_type l)"
proof -
  have "head_rewritable ls =
      (case dropWhile (\<lambda>l. \<not> is_type_line l) ls of [] \<Rightarrow> False | l # _ \<Rightarrow> rewritable_type l)"
    by (induction ls) (auto simp: head_rewritable_def)
  with should_rewrite_head [OF assms] show ?thesis by simp
qed

end
