(* ===== verification/Proxy.thy ===== *)
theory Proxy
  imports Headers
begin

section \<open>The rewriting proxy (tcp\_proxy.rs)\<close>

text \<open>
  \<open>proxy_response_with_rewrite\<close>: the loop over the responses of one origin connection. The
  abstract side is a response as its head, its body and the framing of the body; \<open>proxied\<close>
  says what the client receives for it, and the refinement theorems show that the loop delivers
  exactly that, response by response.
\<close>

subsection \<open>The code\<close>

definition MAX_REWRITABLE_BODY_SIZE :: nat where
  "MAX_REWRITABLE_BODY_SIZE = 10 * 1024 * 1024"

text \<open>The body of a response that is not rewritten.\<close>

definition forward_body :: "nat option \<Rightarrow> bool \<Rightarrow> unit io" where
  "forward_body content_length is_chunked =
     (if is_chunked then pass_through_chunked
      else (case content_length of Some len \<Rightarrow> forward_bytes len | None \<Rightarrow> io_return ()))"

text \<open>The body of a response that is rewritten; \<open>None\<close> is the \<^verbatim>\<open>continue\<close> of the branch
  without any framing.\<close>

definition read_body :: "nat option \<Rightarrow> bool \<Rightarrow> bytes option io" where
  "read_body content_length is_chunked =
     (if is_chunked
      then io_bind (read_chunked_body MAX_REWRITABLE_BODY_SIZE) (\<lambda>body. io_return (Some body))
      else (case content_length of
              Some len \<Rightarrow> io_bind (read_exact len) (\<lambda>body. io_return (Some body))
            | None \<Rightarrow> io_return None))"

text \<open>Rewriting the body, updating the head and sending both.\<close>

definition rewritten_body :: "bytes \<Rightarrow> bytes \<Rightarrow> bytes \<Rightarrow> bytes" where
  "rewritten_body origin_url_base proxy_url_base body =
     str_replace (from_utf8_lossy body) origin_url_base proxy_url_base"

definition updated_headers :: "bytes \<Rightarrow> nat option \<Rightarrow> nat \<Rightarrow> nat \<Rightarrow> bytes" where
  "updated_headers headers_str content_length old_length new_length =
     (if content_length \<noteq> None \<and> new_length \<noteq> old_length
      then update_content_length headers_str new_length
      else headers_str)"

definition send_rewritten :: "bytes \<Rightarrow> bytes \<Rightarrow> bytes \<Rightarrow> nat option \<Rightarrow> bool \<Rightarrow> bytes \<Rightarrow> unit io" where
  "send_rewritten origin_url_base proxy_url_base headers_str content_length is_chunked body =
     (let rewritten_bytes = rewritten_body origin_url_base proxy_url_base body
      in io_bind (write_all (updated_headers headers_str content_length (length body)
                               (length rewritten_bytes))) (\<lambda>_.
         io_bind (if is_chunked then write_chunked_body rewritten_bytes
                  else write_all rewritten_bytes) (\<lambda>_. flush)))"

text \<open>A response with neither length nor chunks: everything up to the end of the connection.\<close>

definition stream_rest :: "bytes \<Rightarrow> unit io" where
  "stream_rest header_buf =
     io_bind (write_all header_buf) (\<lambda>_. io_bind flush (\<lambda>_. io_bind io_copy (\<lambda>_. io_return ())))"

lemma behaves_bodies [simp, behaves]:
  "behaves_at (forward_body cl ch) c" "behaves_at (read_body cl ch) c"
  "behaves_at (send_rewritten ob pb hs cl ch b) c" "behaves_at (stream_rest hb) c"
  by (auto simp: forward_body_def read_body_def send_rewritten_def stream_rest_def Let_def
      split: option.split intro!: behaves)

lemma grows_bodies [simp, behaves]:
  "grows_at (forward_body cl ch) c" "grows_at (read_body cl ch) c"
  "grows_at (send_rewritten ob pb hs cl ch b) c" "grows_at (stream_rest hb) c"
  by (simp_all add: behaves_grows)

lemmas body_le = behaves_le [OF behaves_bodies(1)] behaves_le [OF behaves_bodies(2)]
  behaves_le [OF behaves_bodies(3)] behaves_le [OF behaves_flush]

lemma read_head_less:
  "read_head hb st c = (Inr (Some (hb', st')), c1) \<Longrightarrow> length (data c1) < length (data c)"
  using read_head_post [of hb c st] by (auto simp: post_def)

function proxy_response_with_rewrite :: "bytes \<Rightarrow> bytes \<Rightarrow> unit io" where
  "proxy_response_with_rewrite origin_url_base proxy_url_base c =
     io_bind (read_head [] (None, False)) (\<lambda>head c.
       case head of
         None \<Rightarrow> io_return () c
       | Some (header_buf, content_length, is_chunked) \<Rightarrow>
           if header_buf = [] then io_return () c
           else if \<not> is_chunked \<and> content_length = None then stream_rest header_buf c
           else if \<not> should_rewrite_content (from_utf8_lossy header_buf) \<or>
                   (\<exists>len \<in> set_option content_length. len > MAX_REWRITABLE_BODY_SIZE) then
             io_bind (write_all header_buf) (\<lambda>_ c.
               io_bind (forward_body content_length is_chunked) (\<lambda>_ c.
                 io_bind flush (\<lambda>_ c.
                   proxy_response_with_rewrite origin_url_base proxy_url_base c) c) c) c
           else
             io_bind (read_body content_length is_chunked) (\<lambda>body c.
               case body of
                 None \<Rightarrow> proxy_response_with_rewrite origin_url_base proxy_url_base c
               | Some body \<Rightarrow>
                   io_bind (send_rewritten origin_url_base proxy_url_base
                              (from_utf8_lossy header_buf) content_length is_chunked body)
                     (\<lambda>_ c. proxy_response_with_rewrite origin_url_base proxy_url_base c) c) c) c"
  by pat_completeness auto
termination
  by (relation "measure (\<lambda>(ob, pb, c). length (data c))")
     (auto dest!: read_head_less body_le io_le)

declare proxy_response_with_rewrite.simps [simp del]

lemmas proxy_eq = ext [OF proxy_response_with_rewrite.simps]

lemma grows_proxy [simp, behaves]: "grows_at (proxy_response_with_rewrite ob pb) c"
proof (induction ob pb c rule: proxy_response_with_rewrite.induct)
  case (1 ob pb c)
  show ?case
    by (subst proxy_eq) (intro behaves 1, (assumption | simp)+)
qed

lemma behaves_proxy [simp]: "behaves_at (proxy_response_with_rewrite ob pb) c"
proof (induction ob pb c rule: proxy_response_with_rewrite.induct)
  case (1 ob pb c)
  show ?case
    by (subst proxy_eq) (intro behaves 1, (assumption | simp)+)
qed

interpretation prx: stream_op "proxy_response_with_rewrite ob pb"
  by (rule stream_opI) simp

subsection \<open>Responses\<close>

text \<open>A response of the origin: the lines of its head, the empty line, and the framed body.\<close>

datatype framing =
    Sized bytes
  | Chunks "(bytes \<times> bytes) list" bytes bytes

record response =
  head_lines :: "bytes list"
  blank :: bytes
  framed :: framing

fun body_wire :: "framing \<Rightarrow> bytes" where
  "body_wire (Sized b) = b"
| "body_wire (Chunks chs ext tr) = wire chs @ last_wire ext tr"

fun body_of :: "framing \<Rightarrow> bytes" where
  "body_of (Sized b) = b"
| "body_of (Chunks chs ext tr) = payload chs"

fun framing_ok :: "nat option \<times> bool \<Rightarrow> framing \<Rightarrow> bool" where
  "framing_ok info (Sized b) \<longleftrightarrow> info = (Some (length b), False)"
| "framing_ok info (Chunks chs ext tr) \<longleftrightarrow>
     snd info \<and> list_all chunk_ok chs \<and> ext_ok ext \<and> LF \<notin> set tr"

definition resp_wire :: "response \<Rightarrow> bytes" where
  "resp_wire r = head_wire (head_lines r) (blank r) @ body_wire (framed r)"

text \<open>The responses the proxy rewrites: a textual type and a declared length within the limit.\<close>

definition rewritable :: "response \<Rightarrow> bool" where
  "rewritable r \<longleftrightarrow>
     head_rewritable (map from_utf8_lossy (head_lines r)) \<and>
     (\<forall>len \<in> set_option (fst (head_info (head_lines r))). len \<le> MAX_REWRITABLE_BODY_SIZE)"

definition resp_ok :: "response \<Rightarrow> bool" where
  "resp_ok r \<longleftrightarrow>
     head_ok (head_lines r) (blank r) \<and>
     framing_ok (head_info (head_lines r)) (framed r)"

text \<open>A body the proxy has to hold in memory fits.\<close>

definition fits :: "response \<Rightarrow> bool" where
  "fits r \<longleftrightarrow> (rewritable r \<longrightarrow> length (body_of (framed r)) \<le> MAX_REWRITABLE_BODY_SIZE)"

text \<open>What the client is to receive: the response as it is, or with the body's URLs replaced,
  one chunk for a chunked body, and the length line updated when the size changed.\<close>

definition proxied_head :: "bytes \<Rightarrow> bytes \<Rightarrow> response \<Rightarrow> bytes" where
  "proxied_head ob pb r =
     updated_headers (from_utf8_lossy (head_wire (head_lines r) (blank r)))
       (fst (head_info (head_lines r))) (length (body_of (framed r)))
       (length (rewritten_body ob pb (body_of (framed r))))"

fun encode_body :: "framing \<Rightarrow> bytes \<Rightarrow> bytes" where
  "encode_body (Sized _) b = b"
| "encode_body (Chunks _ _ _) b =
     format_hex (length b) @ CRLF @ b @ CRLF @ ''0'' @ CRLF @ CRLF"

definition proxied :: "bytes \<Rightarrow> bytes \<Rightarrow> response \<Rightarrow> bytes" where
  "proxied ob pb r =
     (if rewritable r
      then proxied_head ob pb r @ encode_body (framed r) (rewritten_body ob pb (body_of (framed r)))
      else resp_wire r)"

subsection \<open>The loop implements the specification, response by response\<close>

lemma head_wire_nonempty: "head_ok ls t \<Longrightarrow> head_wire ls t \<noteq> []"
  by (auto simp: head_ok_def head_wire_def)

lemma rewritable_head:
  assumes "head_ok (head_lines r) (blank r)"
  shows "rewritable r \<longleftrightarrow>
    should_rewrite_content (from_utf8_lossy (head_wire (head_lines r) (blank r))) \<and>
    \<not> (\<exists>len \<in> set_option (fst (head_info (head_lines r))). MAX_REWRITABLE_BODY_SIZE < len)"
proof -
  have "blank r = [LF] \<or> blank r = CRLF" using assms by (simp add: head_ok_def)
  with should_rewrite_head [OF head_ok_lossy [OF assms]] show ?thesis
    by (auto simp: rewritable_def lossy_head_wire not_le)
qed

lemma flat_proxy_head:
  assumes "head_ok ls t"
  shows "read_head [] (None, False) (flat (head_wire ls t @ s) e w) =
    (Inr (Some (head_wire ls t, head_info ls)), flat s e w)"
  using flat_read_head [OF assms, of "[]"] by (simp add: head_info_def)

lemma flat_forward_body:
  assumes "framing_ok (cl, ch) f"
  shows "forward_body cl ch (flat (body_wire f @ s) e w) = (Inr (), flat s e (w @ body_wire f))"
  using assms flat_pass_wire [of _ _ _ s e w]
  by (cases f) (auto simp: forward_body_def flat_forward list_all_iff)

lemma flat_read_body:
  assumes "framing_ok (cl, ch) f" and "length (body_of f) \<le> MAX_REWRITABLE_BODY_SIZE"
  shows "read_body cl ch (flat (body_wire f @ s) e w) = (Inr (Some (body_of f)), flat s e w)"
  using assms flat_read_wire [of _ _ _ "[]" MAX_REWRITABLE_BODY_SIZE s e w]
  by (cases f)
     (auto simp: read_body_def bind_go flat_read_exact io_return_def read_chunked_body_def
       MAX_REWRITABLE_BODY_SIZE_def isize_max_def list_all_iff)

lemma send_rewritten_reads:
  assumes "framing_ok (cl, ch) f" and "room c = Reads"
  shows "send_rewritten ob pb hs cl ch b c =
    (Inr (), c\<lparr>out := out c @ updated_headers hs cl (length b) (length (rewritten_body ob pb b)) @
       encode_body f (rewritten_body ob pb b)\<rparr>)"
  using assms
  by (cases f) (auto simp: send_rewritten_def write_chunked_body_def Let_def io_bind_def write_all_def flush_def io_return_def)

lemma flat_send_rewritten:
  assumes "framing_ok (cl, ch) f"
  shows "send_rewritten ob pb hs cl ch b (flat s e w) =
    (Inr (), flat s e (w @ updated_headers hs cl (length b) (length (rewritten_body ob pb b)) @
       encode_body f (rewritten_body ob pb b)))"
  using send_rewritten_reads [OF assms, of "flat s e w"] by (simp add: flat_def)

lemma flat_proxy_step:
  assumes "resp_ok r" and "fits r"
  shows "proxy_response_with_rewrite ob pb (flat (resp_wire r @ s) e w) =
    proxy_response_with_rewrite ob pb (flat s e (w @ proxied ob pb r))"
proof -
  obtain cl ch where info: "head_info (head_lines r) = (cl, ch)" by fastforce
  from assms(1) info have h: "head_ok (head_lines r) (blank r)" and f: "framing_ok (cl, ch) (framed r)"
    by (simp_all add: resp_ok_def)
  from f have framed: "\<not> (\<not> ch \<and> cl = None)" by (cases "framed r") auto
  note head = flat_proxy_head [OF h] head_wire_nonempty [OF h] info
  show ?thesis
  proof (cases "rewritable r")
    case True
    with assms(2) have "length (body_of (framed r)) \<le> MAX_REWRITABLE_BODY_SIZE"
      by (simp add: fits_def)
    note body = flat_read_body [OF f this]
    show ?thesis
      using True rewritable_head [OF h] framed
      by (subst proxy_response_with_rewrite.simps)
         (auto simp: resp_wire_def head bind_go body flat_send_rewritten [OF f] proxied_def
           proxied_head_def)
  next
    case False
    with rewritable_head [OF h] framed show ?thesis
      by (subst proxy_response_with_rewrite.simps)
         (auto simp: resp_wire_def head bind_go flat_write flat_flush flat_forward_body [OF f]
           proxied_def)
  qed
qed

lemma flat_proxy_responses:
  assumes "list_all resp_ok rs" and "list_all fits rs"
  shows "proxy_response_with_rewrite ob pb (flat (concat (map resp_wire rs) @ s) e w) =
    proxy_response_with_rewrite ob pb (flat s e (w @ concat (map (proxied ob pb) rs)))"
  using assms by (induction rs arbitrary: w) (simp_all add: flat_proxy_step)

subsection \<open>The framing of what the client receives\<close>

text \<open>The rewritten response as a response of its own.\<close>

lemma updated_headers_wire:
  fixes r :: response
  defines "hs \<equiv> map from_utf8_lossy (head_lines r)" and "cl \<equiv> fst (head_info (head_lines r))"
  assumes h: "head_ok (head_lines r) (blank r)" and n: "n < word_modulus"
  shows "\<exists>ls t. updated_headers (from_utf8_lossy (head_wire (head_lines r) (blank r))) cl m n =
      head_wire ls t \<and> head_ok ls t \<and> snd (head_info ls) = snd (head_info (head_lines r)) \<and>
      head_rewritable (map from_utf8_lossy ls) = head_rewritable hs \<and>
      (cl = Some m \<longrightarrow> fst (head_info ls) = Some n)"
proof (cases "cl \<noteq> None \<and> n \<noteq> m")
  case True
  let ?ls = "map (updated_line n) hs"
  have "blank r = [LF] \<or> blank r = CRLF" using h by (simp add: head_ok_def)
  then have "updated_headers (from_utf8_lossy (head_wire (head_lines r) (blank r))) cl m n =
      head_wire ?ls CRLF"
    using True update_head_wire [OF head_ok_lossy [OF h]]
    by (simp add: updated_headers_def lossy_head_wire hs_def)
  moreover have "head_ok ?ls CRLF"
    using updated_head_ok [OF head_ok_lossy [OF h]] by (simp add: hs_def)
  moreover have "map from_utf8_lossy ?ls = ?ls"
    by (simp add: hs_def updated_line_valid)
  moreover have "head_info ?ls = (Some n, snd (head_info (head_lines r)))"
    using head_info_updated [OF n, of "head_lines r"] True head_info_length_line [of "head_lines r"]
    by (auto simp: hs_def cl_def)
  ultimately show ?thesis
    by (metis fst_conv snd_conv head_rewritable_updated)
next
  case False
  have "blank r = [LF] \<or> blank r = CRLF" using h by (simp add: head_ok_def)
  with False head_ok_lossy [OF h] show ?thesis
    by (intro exI [of _ hs] exI [of _ "blank r"])
       (auto simp: updated_headers_def lossy_head_wire hs_def head_info_lossy cl_def comp_def)
qed

fun reframed :: "framing \<Rightarrow> bytes \<Rightarrow> framing" where
  "reframed (Sized _) b = Sized b"
| "reframed (Chunks _ _ _) b = Chunks [([CR], b)] [CR] [CR]"

lemma reframed_wire: "body_wire (reframed f b) = encode_body f b" "body_of (reframed f b) = b"
  by (cases f; simp add: chunk_wire_def last_wire_def)+

subsection \<open>Properties\<close>

text \<open>What the loop delivers for any sequence of well-formed responses, and how it ends.\<close>

lemma proxy_responses:
  assumes "data c = concat (map resp_wire rs)" and "room c = Reads"
    and "list_all resp_ok rs" and "list_all fits rs"
  shows "out (snd (proxy_response_with_rewrite ob pb c)) = out c @ concat (map (proxied ob pb) rs) \<and>
    fst (proxy_response_with_rewrite ob pb c) =
      (case fin c of Closed \<Rightarrow> Inr () | Reset \<Rightarrow> Inl (IoError ConnectionReset) | Open \<Rightarrow> Inl Suspended)"
proof -
  let ?w = "out c @ concat (map (proxied ob pb) rs)"
  have "proxy_response_with_rewrite ob pb (flat (data c) (fin c) (out c)) =
      proxy_response_with_rewrite ob pb (flat [] (fin c) ?w)"
    using flat_proxy_responses [OF assms(3,4), of ob pb "[]"] assms(1) by simp
  also have "\<dots> = at_end (Inr ()) \<lparr>segs = [], fin = fin c, out = ?w, room = Reads\<rparr>"
    by (subst proxy_response_with_rewrite.simps, subst read_head_eq)
       (simp add: io_bind_def read_line_drained at_end_def io_return_def split: stream_end.split)
  finally have "proxy_response_with_rewrite ob pb (flat (data c) (fin c) (out c)) =
      at_end (Inr ()) \<lparr>segs = [], fin = fin c, out = ?w, room = Reads\<rparr>" .
  then have run: "proxy_response_with_rewrite ob pb (flat (data c) (fin c) (out c)) =
      (case fin c of Closed \<Rightarrow> Inr () | Reset \<Rightarrow> Inl (IoError ConnectionReset) | Open \<Rightarrow> Inl Suspended,
       \<lparr>segs = [], fin = fin c, out = ?w, room = Reads\<rparr>)"
    by (simp add: at_end_def split: stream_end.split)
  from prx.from_flat [OF assms(2) run] show ?thesis by simp
qed

text \<open>A description with one URL of the origin, and a chunked one, for the concrete instances.\<close>

definition sample :: response where
  "sample = \<lparr>head_lines = [''HTTP/1.1 200 OK'' @ [CR], ''Content-Type: text/xml'' @ [CR],
                 ''Content-Length: 17'' @ [CR]],
     blank = CRLF, framed = Sized ''<u>http://o:1</u>''\<rparr>"

definition chunked_sample :: response where
  "chunked_sample = \<lparr>head_lines = [''HTTP/1.1 200 OK'' @ [CR], ''Content-Type: text/xml'' @ [CR],
                 ''Transfer-Encoding: chunked'' @ [CR]],
     blank = CRLF, framed = Chunks [([CR], ''<u>http''), ([CR], ''://o:1</u>'')] [CR] [CR]\<rparr>"

lemma sample_facts:
  "resp_ok sample" "rewritable sample"
  "body_of (framed sample) = ''<u>http://o:1</u>''"
  "rewritten_body ''http://o:1'' ''http://p:22'' ''<u>http://o:1</u>'' = ''<u>http://p:22</u>''"
  "proxied ''http://o:1'' ''http://p:22'' sample =
     ''HTTP/1.1 200 OK'' @ CRLF @ ''Content-Type: text/xml'' @ CRLF @
     ''Content-Length: 18'' @ CRLF @ CRLF @ ''<u>http://p:22</u>''"
  by code_simp+

lemma chunked_sample_facts:
  "resp_ok chunked_sample" "rewritable chunked_sample"
  "body_of (framed chunked_sample) = ''<u>http://o:1</u>''"
  by code_simp+

lemma samples_fit: "fits sample" "fits chunked_sample"
  by (simp_all add: fits_def sample_facts chunked_sample_facts MAX_REWRITABLE_BODY_SIZE_def)

text \<open>C1. The client receives, for any sequence of well-formed responses and any segmentation,
  exactly what the specification says for each, in order; the loop then ends as the origin's
  stream does, or waits while the origin keeps the connection open.\<close>

theorem proxy_refines_spec:
  assumes "data c = concat (map resp_wire rs)" and "room c = Reads"
    and "list_all resp_ok rs" and "list_all fits rs"
  shows "out (snd (proxy_response_with_rewrite ob pb c)) = out c @ concat (map (proxied ob pb) rs) \<and>
    fst (proxy_response_with_rewrite ob pb c) =
      (case fin c of Closed \<Rightarrow> Inr () | Reset \<Rightarrow> Inl (IoError ConnectionReset) | Open \<Rightarrow> Inl Suspended)"
  using assms by (rule proxy_responses)

theorem proxy_refines_spec_witness:
  "out (snd (proxy_response_with_rewrite ''http://o:1'' ''http://p:22''
      (flat (resp_wire sample @ resp_wire chunked_sample) Open []))) =
    proxied ''http://o:1'' ''http://p:22'' sample @ proxied ''http://o:1'' ''http://p:22'' chunked_sample"
  using proxy_refines_spec [of "flat (resp_wire sample @ resp_wire chunked_sample) Open []"
      "[sample, chunked_sample]" "''http://o:1''" "''http://p:22''"]
  by (simp add: sample_facts(1) chunked_sample_facts(1) samples_fit)

text \<open>What the client receives for a rewritten response is a well-formed response again. (The exception
  is an empty rewritten body sent in chunks.)\<close>

lemma rewritten_response_well_framed:
  assumes "resp_ok r" and "rewritable r"
    and "length (rewritten_body ob pb (body_of (framed r))) < word_modulus"
    and "rewritten_body ob pb (body_of (framed r)) \<noteq> [] \<or> (\<exists>b. framed r = Sized b)"
  shows "\<exists>r'. proxied ob pb r = resp_wire r' \<and> resp_ok r' \<and>
    body_of (framed r') = rewritten_body ob pb (body_of (framed r)) \<and>
    head_rewritable (map from_utf8_lossy (head_lines r'))"
proof -
  let ?b = "rewritten_body ob pb (body_of (framed r))"
  from assms(1) have h: "head_ok (head_lines r) (blank r)" by (simp add: resp_ok_def)
  from updated_headers_wire [OF h assms(3), of "length (body_of (framed r))"]
  obtain ls t where lt: "proxied_head ob pb r = head_wire ls t" "head_ok ls t"
      "snd (head_info ls) = snd (head_info (head_lines r))"
      "head_rewritable (map from_utf8_lossy ls) = head_rewritable (map from_utf8_lossy (head_lines r))"
      "fst (head_info (head_lines r)) = Some (length (body_of (framed r))) \<longrightarrow>
         fst (head_info ls) = Some (length ?b)"
    unfolding proxied_head_def by blast
  let ?r = "\<lparr>head_lines = ls, blank = t, framed = reframed (framed r) ?b\<rparr>"
  have "framing_ok (head_info ls) (reframed (framed r) ?b)"
    using assms(1,3,4) lt(3,5)
    by (cases "framed r") (auto simp: resp_ok_def chunk_ok_def prod_eq_iff)
  with lt assms(2) show ?thesis
    by (intro exI [of _ ?r])
       (simp add: proxied_def resp_wire_def resp_ok_def reframed_wire rewritable_def)
qed

definition proxied_body :: "bytes \<Rightarrow> bytes \<Rightarrow> response \<Rightarrow> bytes" where
  "proxied_body ob pb r =
     (if rewritable r then rewritten_body ob pb (body_of (framed r)) else body_of (framed r))"

text \<open>The rewritten body fits the machine's sizes, and is not empty where it is sent in chunks.\<close>

definition sendable :: "bytes \<Rightarrow> bytes \<Rightarrow> response \<Rightarrow> bool" where
  "sendable ob pb r \<longleftrightarrow>
     length (proxied_body ob pb r) < word_modulus \<and>
     (proxied_body ob pb r \<noteq> [] \<or> \<not> rewritable r \<or> (\<exists>b. framed r = Sized b))"

lemma proxied_well_framed:
  assumes "resp_ok r" and "sendable ob pb r"
  shows "\<exists>r'. proxied ob pb r = resp_wire r' \<and> resp_ok r' \<and>
    body_of (framed r') = proxied_body ob pb r \<and>
    head_rewritable (map from_utf8_lossy (head_lines r')) =
      head_rewritable (map from_utf8_lossy (head_lines r))"
proof (cases "rewritable r")
  case True
  with rewritten_response_well_framed [OF assms(1) True, of ob pb] assms(2)
  show ?thesis by (simp add: sendable_def proxied_body_def rewritable_def)
next
  case False
  with assms(1) show ?thesis
    by (intro exI [of _ r]) (simp add: proxied_def proxied_body_def)
qed

text \<open>C2. The client can follow the stream: what it receives is a sequence of well-formed responses,
  one for each the origin sent, in order and of the same kind, and the declared length or the
  chunks of each frame exactly the origin's body, rewritten where it is text. One kind of response is
  excepted (\<open>sendable\<close>): a text response in chunks whose body is empty, which is not written well-formed.\<close>

theorem client_stream_well_framed:
  assumes "data c = concat (map resp_wire rs)" and "room c = Reads"
    and "list_all resp_ok rs" and "list_all fits rs" and "list_all (sendable ob pb) rs"
  shows "\<exists>rs'. out (snd (proxy_response_with_rewrite ob pb c)) = out c @ concat (map resp_wire rs') \<and>
    list_all resp_ok rs' \<and> map (body_of \<circ> framed) rs' = map (proxied_body ob pb) rs \<and>
    map (head_rewritable \<circ> map from_utf8_lossy \<circ> head_lines) rs' =
      map (head_rewritable \<circ> map from_utf8_lossy \<circ> head_lines) rs"
proof -
  have "\<exists>f. \<forall>r \<in> set rs. proxied ob pb r = resp_wire (f r) \<and> resp_ok (f r) \<and>
      body_of (framed (f r)) = proxied_body ob pb r \<and>
      head_rewritable (map from_utf8_lossy (head_lines (f r))) =
        head_rewritable (map from_utf8_lossy (head_lines r))"
    using assms(3,5) proxied_well_framed by (intro bchoice) (auto simp: list_all_iff)
  then obtain f where f: "\<And>r. r \<in> set rs \<Longrightarrow> proxied ob pb r = resp_wire (f r) \<and> resp_ok (f r) \<and>
      body_of (framed (f r)) = proxied_body ob pb r \<and>
      head_rewritable (map from_utf8_lossy (head_lines (f r))) =
        head_rewritable (map from_utf8_lossy (head_lines r))" by blast
  then have "map (proxied ob pb) rs = map resp_wire (map f rs)" by simp
  then have w: "concat (map (proxied ob pb) rs) = concat (map resp_wire (map f rs))" by (rule arg_cong)
  from proxy_responses [OF assms(1-4), of ob pb] w f show ?thesis
    by (intro exI [of _ "map f rs"]) (simp add: list_all_iff)
qed

theorem client_stream_well_framed_witness:
  "\<exists>rs'. out (snd (proxy_response_with_rewrite ''http://o:1'' ''http://p:22''
        (flat (resp_wire sample @ resp_wire chunked_sample) Open []))) = concat (map resp_wire rs') \<and>
     map (body_of \<circ> framed) rs' = [''<u>http://p:22</u>'', ''<u>http://p:22</u>'']"
proof -
  have "proxied_body ''http://o:1'' ''http://p:22'' sample = ''<u>http://p:22</u>''"
    "proxied_body ''http://o:1'' ''http://p:22'' chunked_sample = ''<u>http://p:22</u>''"
    using sample_facts chunked_sample_facts by (simp_all add: proxied_body_def)
  then show ?thesis
    using client_stream_well_framed [of "flat (resp_wire sample @ resp_wire chunked_sample) Open []"
        "[sample, chunked_sample]" "''http://o:1''" "''http://p:22''"]
    by (auto simp: sample_facts(1) chunked_sample_facts(1) samples_fit sendable_def word_modulus_def)
qed

text \<open>C11. Every occurrence of the origin's base URL is replaced and nothing else is: the decoded
  body is pieces without the origin's base joined by it, and the rewritten body is the same pieces
  joined by the proxy's base.\<close>

theorem rewriting_replaces_every_url:
  assumes "ob \<noteq> []"
  shows "\<exists>ps. from_utf8_lossy body = join ob ps \<and> (\<forall>p \<in> set ps. \<not> contains p ob) \<and>
    rewritten_body ob pb body = join pb ps"
  using assms pieces_free [OF assms]
  by (intro exI [of _ "pieces ob (from_utf8_lossy body)"])
     (auto simp: rewritten_body_def str_replace_def replace_pieces join_pieces)

theorem rewriting_replaces_every_url_witness:
  "\<exists>ps. from_utf8_lossy ''<u>http://o:1</u>'' = join ''http://o:1'' ps \<and>
    (\<forall>p \<in> set ps. \<not> contains p ''http://o:1'') \<and>
    rewritten_body ''http://o:1'' ''http://p:22'' ''<u>http://o:1</u>'' = join ''http://p:22'' ps"
  by (rule rewriting_replaces_every_url) simp

text \<open>A text response of declared length that is valid UTF-8 and names no URL of the origin is
  delivered byte for byte.\<close>

lemma proxied_transparent:
  assumes "resp_ok r" and "framed r = Sized b" and "ob \<noteq> []" and "\<not> contains b ob"
    and "utf8_valid b" and "utf8_valid (head_wire (head_lines r) (blank r))"
  shows "proxied ob pb r = resp_wire r"
proof -
  have "rewritten_body ob pb b = b"
    using assms(3-5) by (simp add: rewritten_body_def str_replace_def lossy_valid replace_none)
  with assms show ?thesis
    by (simp add: proxied_def proxied_head_def updated_headers_def resp_wire_def lossy_valid)
qed

text \<open>A head that announces neither a length nor chunks switches the connection to streaming.\<close>

lemma unframed_streams:
  assumes "data c = concat (map resp_wire rs) @ head_wire ls t @ s" and "room c = Reads"
    and "list_all resp_ok rs" and "list_all fits rs"
    and "head_ok ls t" and "head_info ls = (None, False)"
  shows "out (snd (proxy_response_with_rewrite ob pb c)) =
    out c @ concat (map (proxied ob pb) rs) @ head_wire ls t @ s"
proof -
  let ?w = "out c @ concat (map (proxied ob pb) rs)"
  have "proxy_response_with_rewrite ob pb (flat (data c) (fin c) (out c)) =
      proxy_response_with_rewrite ob pb (flat (head_wire ls t @ s) (fin c) ?w)"
    using flat_proxy_responses [OF assms(3,4), of ob pb "head_wire ls t @ s"] assms(1) by simp
  also have "out (snd \<dots>) = ?w @ head_wire ls t @ s"
    using flat_proxy_head [OF assms(5)] head_wire_nonempty [OF assms(5)] assms(6)
    by (subst proxy_response_with_rewrite.simps)
       (simp add: bind_go stream_rest_def flat_write flat_flush flat_copy io_bind_def at_end_def
         io_return_def split: stream_end.split)
  finally show ?thesis
    using prx.same_output [OF flat_view [OF assms(2)]] by simp
qed

text \<open>C26. A response with neither a length nor chunks switches the connection to streaming: its
  head and everything the origin sends after it reach the client unchanged, later responses and
  their URLs included.\<close>

theorem unframed_response_streams:
  assumes "data c = concat (map resp_wire rs) @ head_wire ls t @ s" and "room c = Reads"
    and "list_all resp_ok rs" and "list_all fits rs"
    and "head_ok ls t" and "head_info ls = (None, False)"
  shows "out (snd (proxy_response_with_rewrite ob pb c)) =
    out c @ concat (map (proxied ob pb) rs) @ head_wire ls t @ s"
  using assms by (rule unframed_streams)

theorem unframed_response_streams_witness:
  "out (snd (proxy_response_with_rewrite ''http://o:1'' ''http://p:22''
      (flat (head_wire [''HTTP/1.1 204 No Content'' @ [CR]] CRLF @ resp_wire sample) Open []))) =
    head_wire [''HTTP/1.1 204 No Content'' @ [CR]] CRLF @ resp_wire sample"
proof -
  have h: "head_ok [''HTTP/1.1 204 No Content'' @ [CR]] CRLF"
    "head_info [''HTTP/1.1 204 No Content'' @ [CR]] = (None, False)"
    by code_simp+
  show ?thesis
    using unframed_response_streams [OF _ _ _ _ h, of _ "[]" "resp_wire sample"] by simp
qed

text \<open>C39. Only one line of trailer is read after the last chunk. After a chunked response with a trailer
  section, the line that ends the section is taken for a head without framing: from there on the
  connection is copied, and no later response on it is rewritten, whatever its type.\<close>

theorem trailer_ends_rewriting:
  assumes "data c = concat (map resp_wire rs) @ resp_wire r @ CRLF @ s" and "room c = Reads"
    and "list_all resp_ok rs" and "list_all fits rs"
    and "resp_ok r" and "fits r" and "framed r = Chunks chs ext trailer_field"
  shows "out (snd (proxy_response_with_rewrite ob pb c)) =
    out c @ concat (map (proxied ob pb) rs) @ proxied ob pb r @ CRLF @ s"
proof -
  have "head_ok [] CRLF" "head_info [] = (None, False)" by (simp_all add: head_ok_def head_info_def)
  from unframed_streams [OF _ assms(2) _ _ this, of "rs @ [r]" s ob pb] assms show ?thesis
    by simp
qed

theorem trailer_ends_rewriting_witness:
  "\<exists>w. out (snd (proxy_response_with_rewrite ''http://o:1'' ''http://p:22''
      (flat (resp_wire (chunked_sample\<lparr>framed := Chunks [([CR], ''<u>'')] [CR] ''X-Sum: 1''\<rparr>) @ CRLF @ resp_wire sample) Open []))) =
    w @ CRLF @ resp_wire sample"
proof -
  let ?r = "chunked_sample\<lparr>framed := Chunks [([CR], ''<u>'')] [CR] ''X-Sum: 1''\<rparr>"
  have "resp_ok ?r" by code_simp
  moreover have "fits ?r" by (simp add: fits_def MAX_REWRITABLE_BODY_SIZE_def)
  ultimately show ?thesis
    using trailer_ends_rewriting [of "flat (resp_wire ?r @ CRLF @ resp_wire sample) Open []" "[]" ?r
        "resp_wire sample" "[([CR], ''<u>'')]" "[CR]" "''X-Sum: 1''" "''http://o:1''" "''http://p:22''"]
    by simp
qed

text \<open>C12. Every complete response is delivered, in order, whatever follows it: garbage, a partial
  response, a reset.\<close>

theorem complete_responses_delivered:
  assumes "data c = concat (map resp_wire rs) @ s" and "room c = Reads"
    and "list_all resp_ok rs" and "list_all fits rs"
  shows "prefix (out c @ concat (map (proxied ob pb) rs)) (out (snd (proxy_response_with_rewrite ob pb c)))"
  using flat_proxy_responses [OF assms(3,4), of ob pb s "fin c" "out c"]
    grows_proxy [of ob pb "flat s (fin c) (out c @ concat (map (proxied ob pb) rs))"]
    prx.same_output [OF flat_view [OF assms(2)], of ob pb] assms(1)
  by (simp add: grows_at_def)

theorem complete_responses_delivered_witness:
  "prefix (proxied ''http://o:1'' ''http://p:22'' sample)
    (out (snd (proxy_response_with_rewrite ''http://o:1'' ''http://p:22''
      (flat (resp_wire sample @ ''HTTP/1.1'') Reset []))))"
  using complete_responses_delivered [of "flat (resp_wire sample @ ''HTTP/1.1'') Reset []" "[sample]"
      "''HTTP/1.1''" "''http://o:1''" "''http://p:22''"]
  by (simp add: sample_facts(1) samples_fit)

text \<open>C13. What the client receives does not depend on how the origin's bytes are cut into segments,
  and a client that disconnects, or stops reading, after \<open>k\<close> more bytes has received exactly the first
  \<open>k\<close> bytes of what it would have received.\<close>

theorem proxy_segmentation_and_disconnect:
  assumes "same_view c d" and "room c = Reads"
  shows "out (snd (proxy_response_with_rewrite ob pb d)) = out (snd (proxy_response_with_rewrite ob pb c)) \<and>
    fst (proxy_response_with_rewrite ob pb d) = fst (proxy_response_with_rewrite ob pb c) \<and>
    out (snd (proxy_response_with_rewrite ob pb (d\<lparr>room := Takes k l\<rparr>))) =
      take (length (out c) + k) (out (snd (proxy_response_with_rewrite ob pb c)))"
proof -
  have "same_view (d\<lparr>room := Takes k l\<rparr>) (capped l (length (out c) + k) c)"
    using assms(1) by (simp add: same_view_def capped_def data_def)
  from prx.same_output [OF this] prx.same_output [OF assms(1)]
    prx.capped_output [OF assms(2), of "length (out c) + k" ob pb l]
  show ?thesis by simp
qed

theorem proxy_segmentation_and_disconnect_witness:
  "out (snd (proxy_response_with_rewrite ''http://o:1'' ''http://p:22''
     \<lparr>segs = [''HT'', ''TP'', [LF]], fin = Closed, out = [], room = Takes 3 Leaves\<rparr>)) =
   take 3 (out (snd (proxy_response_with_rewrite ''http://o:1'' ''http://p:22''
     (flat (''HTTP'' @ [LF]) Closed []))))"
  using proxy_segmentation_and_disconnect [of "flat (''HTTP'' @ [LF]) Closed []"
      "\<lparr>segs = [''HT'', ''TP'', [LF]], fin = Closed, out = [], room = Reads\<rparr>"
      "''http://o:1''" "''http://p:22''" 3 Leaves]
  by (simp add: same_view_def data_def flat_def)

text \<open>C25. A chunked text body over the limit ends the connection with \<open>InvalidData\<close>: neither the
  head nor any of the body is delivered (it is not passed through).\<close>

theorem oversized_chunked_refused:
  assumes "data c = concat (map resp_wire rs) @ resp_wire r @ s" and "room c = Reads"
    and "list_all resp_ok rs" and "list_all fits rs"
    and "resp_ok r" and "rewritable r" and "framed r = Chunks chs ext tr"
    and "MAX_REWRITABLE_BODY_SIZE < length (payload chs)"
    and "\<forall>ch \<in> set chs. length (snd ch) \<le> isize_max"
  shows "fst (proxy_response_with_rewrite ob pb c) = Inl (IoError InvalidData) \<and>
    out (snd (proxy_response_with_rewrite ob pb c)) = out c @ concat (map (proxied ob pb) rs)"
proof -
  let ?w = "out c @ concat (map (proxied ob pb) rs)"
  from assms(5,7) obtain cl where info: "head_info (head_lines r) = (cl, True)"
    by (cases "head_info (head_lines r)") (auto simp: resp_ok_def)
  from assms(5,7) have h: "head_ok (head_lines r) (blank r)"
    and chs: "\<forall>c \<in> set chs. chunk_ok c \<and> length (snd c) \<le> isize_max"
    using assms(9) by (auto simp: resp_ok_def list_all_iff)
  from flat_read_over [OF chs, of MAX_REWRITABLE_BODY_SIZE "[]"] assms(8)
  obtain d where "read_chunks MAX_REWRITABLE_BODY_SIZE []
      (flat (wire chs @ last_wire ext tr @ s) (fin c) ?w) = (Inl (IoError InvalidData), d)" "out d = ?w"
    by (force simp: MAX_REWRITABLE_BODY_SIZE_def isize_max_def)
  then have body: "read_body cl True (flat (body_wire (framed r) @ s) (fin c) ?w) =
      (Inl (IoError InvalidData), d)" "out d = ?w"
    using assms(7) by (simp_all add: read_body_def read_chunked_body_def bind_stop)
  have "proxy_response_with_rewrite ob pb (flat (data c) (fin c) (out c)) =
      proxy_response_with_rewrite ob pb (flat (resp_wire r @ s) (fin c) ?w)"
    using flat_proxy_responses [OF assms(3,4), of ob pb "resp_wire r @ s"] assms(1) by simp
  also have "\<dots> = (Inl (IoError InvalidData), d)"
    using assms(6) rewritable_head [OF h] info
    by (subst proxy_response_with_rewrite.simps)
       (simp add: resp_wire_def flat_proxy_head [OF h] head_wire_nonempty [OF h] bind_go bind_stop body(1))
  finally show ?thesis
    using prx.same_output [OF flat_view [OF assms(2)], of ob pb] body(2) by simp
qed

theorem oversized_chunked_refused_witness:
  "\<exists>chs. fst (proxy_response_with_rewrite ''http://o:1'' ''http://p:22''
        (flat (resp_wire (chunked_sample\<lparr>framed := Chunks chs [CR] [CR]\<rparr>)) Open [])) =
      Inl (IoError InvalidData)"
proof -
  let ?chs = "[([CR], replicate (Suc MAX_REWRITABLE_BODY_SIZE) (CHR ''a''))]"
  let ?r = "chunked_sample\<lparr>framed := Chunks ?chs [CR] [CR]\<rparr>"
  have "head_ok (head_lines chunked_sample) (blank chunked_sample)"
    "snd (head_info (head_lines chunked_sample))"
    by code_simp+
  then have "resp_ok ?r"
    by (simp add: resp_ok_def chunk_ok_def MAX_REWRITABLE_BODY_SIZE_def word_modulus_def)
  moreover have "rewritable ?r"
    using chunked_sample_facts(2) by (simp add: rewritable_def)
  ultimately show ?thesis
    using oversized_chunked_refused [of "flat (resp_wire ?r) Open []" "[]" ?r "[]" ?chs "[CR]" "[CR]"
        "''http://o:1''" "''http://p:22''"]
    by (intro exI [of _ ?chs]) (simp add: MAX_REWRITABLE_BODY_SIZE_def isize_max_def)
qed

text \<open>Bodies that break off: before the declared length, or inside a chunk whose size line is there, in its
  data or in the line end after it, within the limit on what is rewritten.\<close>

definition breaks_off :: "nat option \<times> bool \<Rightarrow> bytes \<Rightarrow> bool" where
  "breaks_off info b \<longleftrightarrow>
     (if snd info
      then \<exists>chs n ext part. b = wire chs @ format_hex n @ ext @ LF # part \<and> list_all chunk_ok chs \<and>
        ext_ok ext \<and> 0 < n \<and> length part < n + 2 \<and> length (payload chs) + n \<le> MAX_REWRITABLE_BODY_SIZE
      else \<exists>n. fst info = Some n \<and> length b < n)"

lemma breaks_off_chunk:
  assumes "list_all chunk_ok chs" and "ext_ok ext" and "0 < n" and "length part < n + 2"
    and "length (payload chs) + n \<le> MAX_REWRITABLE_BODY_SIZE"
  shows "breaks_off (cl, True) (wire chs @ format_hex n @ ext @ LF # part)"
  using assms unfolding breaks_off_def by (simp, blast)

lemma flat_read_broken:
  assumes "breaks_off (cl, ch) b"
  shows "\<exists>d. read_body cl ch (flat b e w) = (Inl (cut_off e), d) \<and> out d = w"
proof (cases ch)
  case True
  with assms obtain chs n ext part where b: "b = wire chs @ format_hex n @ ext @ LF # part"
    "\<forall>ch \<in> set chs. chunk_ok ch" "ext_ok ext" "0 < n" "length part < n + 2"
    "length (payload chs) + n \<le> MAX_REWRITABLE_BODY_SIZE"
    by (auto simp: breaks_off_def list_all_iff)
  have "MAX_REWRITABLE_BODY_SIZE \<le> isize_max" by (simp add: MAX_REWRITABLE_BODY_SIZE_def isize_max_def)
  with read_chunks_cut [OF b(4,3,5), of "payload chs" MAX_REWRITABLE_BODY_SIZE e w] b(6)
    flat_read_chunks [OF b(2), of "[]" MAX_REWRITABLE_BODY_SIZE] True
  show ?thesis by (auto simp: read_body_def read_chunked_body_def b(1) bind_stop)
next
  case False
  with assms obtain n where n: "cl = Some n" "length b < n" by (auto simp: breaks_off_def)
  with read_exact_short [OF n(2), of e w] False show ?thesis by (auto simp: read_body_def bind_stop)
qed

text \<open>C23. A text body that breaks off before its declared length or inside a chunk is never delivered in
  part: the complete responses before it are delivered and nothing of its own response, not even the
  head; the error is \<open>UnexpectedEof\<close> when the origin closed, and the proxy waits while the connection is
  open. A chunked body that ends between two chunks is another matter.\<close>

theorem truncated_text_withheld:
  assumes "data c = concat (map resp_wire rs) @ head_wire ls t @ b" and "room c = Reads"
    and "list_all resp_ok rs" and "list_all fits rs"
    and "head_ok ls t" and "breaks_off (head_info ls) b" and "head_rewritable (map from_utf8_lossy ls)"
    and "\<forall>len \<in> set_option (fst (head_info ls)). len \<le> MAX_REWRITABLE_BODY_SIZE"
  shows "fst (proxy_response_with_rewrite ob pb c) =
      (case fin c of Closed \<Rightarrow> Inl (IoError UnexpectedEof) | Reset \<Rightarrow> Inl (IoError ConnectionReset)
       | Open \<Rightarrow> Inl Suspended) \<and>
    out (snd (proxy_response_with_rewrite ob pb c)) = out c @ concat (map (proxied ob pb) rs)"
proof -
  let ?w = "out c @ concat (map (proxied ob pb) rs)"
  let ?r = "\<lparr>head_lines = ls, blank = t, framed = Sized []\<rparr>"
  obtain cl ch where info: "head_info ls = (cl, ch)" by fastforce
  with assms(6) have framed: "\<not> (\<not> ch \<and> cl = None)" by (cases ch) (auto simp: breaks_off_def)
  obtain d where d: "read_body cl ch (flat b (fin c) ?w) = (Inl (cut_off (fin c)), d)" "out d = ?w"
    using flat_read_broken assms(6) info by metis
  have rw: "should_rewrite_content (from_utf8_lossy (head_wire ls t)) \<and>
      \<not> (\<exists>len \<in> set_option cl. len > MAX_REWRITABLE_BODY_SIZE)"
    using assms(5,7,8) rewritable_head [of ?r] info by (auto simp: rewritable_def)
  have "proxy_response_with_rewrite ob pb (flat (data c) (fin c) (out c)) =
      proxy_response_with_rewrite ob pb (flat (head_wire ls t @ b) (fin c) ?w)"
    using flat_proxy_responses [OF assms(3,4), of ob pb "head_wire ls t @ b"] assms(1) by simp
  also have "\<dots> = (Inl (cut_off (fin c)), d)"
    using info rw framed d(1)
    by (subst proxy_response_with_rewrite.simps)
       (auto simp: flat_proxy_head [OF assms(5)] head_wire_nonempty [OF assms(5)] bind_go bind_stop)
  finally show ?thesis
    using prx.same_output [OF flat_view [OF assms(2)], of ob pb] d(2) by (simp split: stream_end.split)
qed

theorem truncated_text_withheld_witness:
  "out (snd (proxy_response_with_rewrite ''http://o:1'' ''http://p:22''
      (flat (head_wire (head_lines chunked_sample) CRLF @
             wire [([CR], ''<u>http'')] @ ''9'' @ CRLF @ ''://'') Closed []))) = []"
proof -
  let ?b = "wire [([CR], ''<u>http'')] @ ''9'' @ CRLF @ ''://''"
  have h: "head_ok (head_lines chunked_sample) CRLF" "head_info (head_lines chunked_sample) = (None, True)"
    "head_rewritable (map from_utf8_lossy (head_lines chunked_sample))" "chunk_ok ([CR], ''<u>http'')"
    by code_simp+
  have "format_hex 9 = ''9''" by code_simp
  with breaks_off_chunk [of "[([CR], ''<u>http'')]" "[CR]" 9 "''://''" None] h(4)
  have "breaks_off (None, True) ?b" by (simp add: MAX_REWRITABLE_BODY_SIZE_def del: wire_simps) (simp add: payload_def)
  with h show ?thesis
    using truncated_text_withheld [of "flat (head_wire (head_lines chunked_sample) CRLF @ ?b) Closed []"
        "[]" "head_lines chunked_sample" CRLF ?b]
    by (simp del: wire_simps)
qed

text \<open>C24. A chunked text body that ends between two chunks, because the origin or the network broke off, is
  delivered as if it were complete: the client receives the chunks that came, rewritten and with a
  last chunk the origin never sent, the same bytes as for the whole response that ends there, and no
  error is raised when the origin has closed.\<close>

theorem truncated_chunks_pass_as_complete:
  assumes "data c = concat (map resp_wire rs) @ head_wire ls t @ wire chs"
    and "room c = Reads" and "fin c = Closed"
    and "list_all resp_ok rs" and "list_all fits rs"
    and "resp_ok \<lparr>head_lines = ls, blank = t, framed = Chunks chs ext tr\<rparr>"
    and "rewritable \<lparr>head_lines = ls, blank = t, framed = Chunks chs ext tr\<rparr>"
    and "length (payload chs) \<le> MAX_REWRITABLE_BODY_SIZE"
  shows "proxy_response_with_rewrite ob pb c = (Inr (), snd (proxy_response_with_rewrite ob pb c)) \<and>
    out (snd (proxy_response_with_rewrite ob pb c)) =
      out c @ concat (map (proxied ob pb) rs) @
        proxied ob pb \<lparr>head_lines = ls, blank = t, framed = Chunks chs ext tr\<rparr>"
proof -
  let ?w = "out c @ concat (map (proxied ob pb) rs)"
  let ?r = "\<lparr>head_lines = ls, blank = t, framed = Chunks chs ext tr\<rparr>"
  obtain cl ch where info: "head_info ls = (cl, ch)" by fastforce
  from assms(6) info have h: "head_ok ls t" "ch" "\<forall>ch \<in> set chs. chunk_ok ch"
    and f: "framing_ok (cl, ch) (Chunks chs ext tr)"
    by (auto simp: resp_ok_def list_all_iff)
  let ?drained = "\<lambda>v. \<lparr>segs = [], fin = Closed, out = v, room = Reads\<rparr>"
  have drained: "proxy_response_with_rewrite ob pb (?drained v) = (Inr (), ?drained v)" for v
    by (subst proxy_response_with_rewrite.simps, subst read_head_eq)
       (simp add: io_bind_def read_line_bytes_def at_end_def io_return_def)
  have "MAX_REWRITABLE_BODY_SIZE \<le> isize_max" by (simp add: MAX_REWRITABLE_BODY_SIZE_def isize_max_def)
  with flat_read_chunks [OF h(3), of "[]" MAX_REWRITABLE_BODY_SIZE "[]" Closed ?w] assms(8)
  have "read_chunks MAX_REWRITABLE_BODY_SIZE [] (flat (wire chs) Closed ?w) =
      read_chunks MAX_REWRITABLE_BODY_SIZE (payload chs) (flat [] Closed ?w)" by simp
  also have "\<dots> = (Inr (payload chs), ?drained ?w)"
    by (subst read_chunks.simps) (simp add: io_bind_def read_line_drained at_end_def io_return_def)
  finally have body: "read_body cl ch (flat (wire chs) Closed ?w) = (Inr (Some (payload chs)), ?drained ?w)"
    using h(2) by (simp add: read_body_def read_chunked_body_def bind_go io_return_def)
  have "proxy_response_with_rewrite ob pb (flat (data c) Closed (out c)) =
      proxy_response_with_rewrite ob pb (flat (head_wire ls t @ wire chs) Closed ?w)"
    using flat_proxy_responses [OF assms(4,5), of ob pb "head_wire ls t @ wire chs"] assms(1) by simp
  also have "\<dots> = proxy_response_with_rewrite ob pb (?drained (?w @ proxied ob pb ?r))"
    using assms(7) rewritable_head [of ?r] h(1,2) info body send_rewritten_reads [OF f, of "?drained ?w"]
    by (subst proxy_response_with_rewrite.simps)
       (auto simp: flat_proxy_head [OF h(1)] head_wire_nonempty [OF h(1)] bind_go proxied_def proxied_head_def)
  finally have "proxy_response_with_rewrite ob pb (flat (data c) Closed (out c)) =
      (Inr (), ?drained (?w @ proxied ob pb ?r))" unfolding drained .
  with assms(3) show ?thesis
    using prx.same_output [OF flat_view [OF assms(2)], of ob pb] by (simp add: prod_eq_iff)
qed

theorem truncated_chunks_pass_as_complete_witness:
  "fst (proxy_response_with_rewrite ''http://o:1'' ''http://p:22''
      (flat (head_wire (head_lines chunked_sample) CRLF @ wire [([CR], ''<u>http'')]) Closed [])) = Inr ()"
proof -
  let ?r = "\<lparr>head_lines = head_lines chunked_sample, blank = CRLF, framed = Chunks [([CR], ''<u>http'')] [CR] [CR]\<rparr>"
  have "resp_ok ?r" "rewritable ?r" by code_simp+
  with truncated_chunks_pass_as_complete [of "flat (head_wire (head_lines chunked_sample) CRLF @ wire [([CR], ''<u>http'')]) Closed []"
      "[]" "head_lines chunked_sample" CRLF "[([CR], ''<u>http'')]" "[CR]" "[CR]" "''http://o:1''" "''http://p:22''"]
  show ?thesis by (simp add: MAX_REWRITABLE_BODY_SIZE_def del: wire_simps) (simp add: prod_eq_iff payload_def)
qed

end
