(* ===== verification/NetAddr.thy ===== *)
theory NetAddr
  imports RustNum "HOL-Library.Word"
begin

section \<open>Socket addresses (std::net as the program uses it)\<close>

text \<open>
  \<^verbatim>\<open>IpAddr\<close> and \<^verbatim>\<open>SocketAddr\<close>, their \<^verbatim>\<open>Display\<close> and the \<^verbatim>\<open>FromStr\<close> parser that the
  configuration and \<open>sockaddr_from_url\<close> rely on. The parser functions follow the standard
  library's recursive-descent parser: each returns the value and the rest of the input, and a
  parser that fails leaves its caller's input untouched.
\<close>

datatype ip_addr =
    V4 "8 word" "8 word" "8 word" "8 word"
  | V6 "16 word list"

datatype socket_addr = SocketAddr (ip: ip_addr) (port: "16 word") (scope_id: "32 word")

subsection \<open>Display\<close>

definition format_word :: "'a::len word \<Rightarrow> bytes" where
  "format_word w = format_usize (unat w)"

definition format_v4 :: "8 word \<Rightarrow> 8 word \<Rightarrow> 8 word \<Rightarrow> 8 word \<Rightarrow> bytes" where
  "format_v4 a b c d = format_word a @ ''.'' @ format_word b @ ''.'' @ format_word c @ ''.'' @ format_word d"

text \<open>The first longest run of zero segments: start and length.\<close>

fun zero_span :: "nat \<Rightarrow> nat \<times> nat \<Rightarrow> nat \<times> nat \<Rightarrow> 16 word list \<Rightarrow> nat \<times> nat" where
  "zero_span i current longest [] = longest"
| "zero_span i current longest (s # ss) =
     (if s = 0 then
        (let current = (if snd current = 0 then (i, 1) else (fst current, snd current + 1))
         in zero_span (i + 1) current (if snd current > snd longest then current else longest) ss)
      else zero_span (i + 1) (0, 0) longest ss)"

fun format_segments :: "16 word list \<Rightarrow> bytes" where
  "format_segments [] = []"
| "format_segments [s] = format_hex (unat s)"
| "format_segments (s # t # ss) = format_hex (unat s) @ '':'' @ format_segments (t # ss)"

definition to_ipv4_mapped :: "16 word list \<Rightarrow> (8 word \<times> 8 word \<times> 8 word \<times> 8 word) option" where
  "to_ipv4_mapped segs =
     (if take 6 segs = [0, 0, 0, 0, 0, 0xFFFF] \<and> length segs = 8
      then Some (ucast (drop_bit 8 (segs ! 6)), ucast (segs ! 6),
                 ucast (drop_bit 8 (segs ! 7)), ucast (segs ! 7))
      else None)"

definition format_v6 :: "16 word list \<Rightarrow> bytes" where
  "format_v6 segs =
     (case to_ipv4_mapped segs of
        Some (a, b, c, d) \<Rightarrow> ''::ffff:'' @ format_v4 a b c d
      | None \<Rightarrow>
          (case zero_span 0 (0, 0) (0, 0) segs of (start, len) \<Rightarrow>
             if len > 1
             then format_segments (take start segs) @ ''::'' @ format_segments (drop (start + len) segs)
             else format_segments segs))"

fun format_ip :: "ip_addr \<Rightarrow> bytes" where
  "format_ip (V4 a b c d) = format_v4 a b c d"
| "format_ip (V6 segs) = format_v6 segs"

definition format_socket_addr :: "socket_addr \<Rightarrow> bytes" where
  "format_socket_addr a =
     (case ip a of
        V4 _ _ _ _ \<Rightarrow> format_ip (ip a) @ '':'' @ format_word (port a)
      | V6 _ \<Rightarrow>
          ''['' @ format_ip (ip a) @
          (if scope_id a = 0 then [] else ''%'' @ format_word (scope_id a)) @
          '']:'' @ format_word (port a))"

subsection \<open>Parsing\<close>

type_synonym 'a parser = "bytes \<Rightarrow> ('a \<times> bytes) option"

fun read_digits :: "nat \<Rightarrow> nat \<Rightarrow> nat option \<Rightarrow> nat \<Rightarrow> nat \<Rightarrow> (nat \<times> nat) parser" where
  "read_digits radix limit max_digits result count [] = Some ((result, count), [])"
| "read_digits radix limit max_digits result count (b # s) =
     (case to_digit radix b of
        None \<Rightarrow> Some ((result, count), b # s)
      | Some d \<Rightarrow>
          if result * radix < limit \<and> result * radix + d < limit \<and>
             (\<forall>m \<in> set_option max_digits. count + 1 \<le> m)
          then read_digits radix limit max_digits (result * radix + d) (count + 1) s
          else None)"

text \<open>\<^verbatim>\<open>read_number\<close> for an unsigned type with values below \<open>limit\<close>.\<close>

definition read_number :: "nat \<Rightarrow> nat \<Rightarrow> nat option \<Rightarrow> bool \<Rightarrow> nat parser" where
  "read_number radix limit max_digits allow_zero_prefix s =
     (case read_digits radix limit max_digits 0 0 s of
        None \<Rightarrow> None
      | Some ((n, count), rest) \<Rightarrow>
          if count = 0 then None
          else if \<not> allow_zero_prefix \<and> s \<noteq> [] \<and> hd s = CHR ''0'' \<and> count > 1 then None
          else Some (n, rest))"

fun read_given_char :: "byte \<Rightarrow> unit parser" where
  "read_given_char c [] = None"
| "read_given_char c (b # s) = (if b = c then Some ((), s) else None)"

definition read_separator :: "byte \<Rightarrow> nat \<Rightarrow> 'a parser \<Rightarrow> 'a parser" where
  "read_separator sep index inner s =
     (if index > 0 then Option.bind (read_given_char sep s) (\<lambda>(_, s). inner s) else inner s)"

definition read_octet :: "nat \<Rightarrow> 8 word parser" where
  "read_octet index s =
     map_option (apfst of_nat)
       (read_separator (CHR ''.'') index (read_number 10 256 (Some 3) False) s)"

definition read_ipv4_addr :: "(8 word \<times> 8 word \<times> 8 word \<times> 8 word) parser" where
  "read_ipv4_addr s =
     Option.bind (read_octet 0 s) (\<lambda>(a, s).
     Option.bind (read_octet 1 s) (\<lambda>(b, s).
     Option.bind (read_octet 2 s) (\<lambda>(c, s).
     Option.bind (read_octet 3 s) (\<lambda>(d, s).
       Some ((a, b, c, d), s)))))"

text \<open>Groups of an IPv6 address from index \<open>i\<close> up to \<open>limit\<close>: the groups read, whether they
  ended with an embedded IPv4 address, and the rest.\<close>

function read_groups :: "nat \<Rightarrow> nat \<Rightarrow> bytes \<Rightarrow> 16 word list \<times> bool \<times> bytes" where
  "read_groups limit i s =
     (if i < limit then
        (case (if i + 1 < limit then read_separator (CHR '':'') i read_ipv4_addr s else None) of
           Some ((a, b, c, d), s) \<Rightarrow>
             ([word_cat a b, word_cat c d], True, s)
         | None \<Rightarrow>
             (case read_separator (CHR '':'') i (read_number 16 65536 (Some 4) True) s of
                Some (g, s) \<Rightarrow>
                  (case read_groups limit (i + 1) s of (gs, v4, rest) \<Rightarrow> (of_nat g # gs, v4, rest))
              | None \<Rightarrow> ([], False, s)))
      else ([], False, s))"
  by pat_completeness auto
termination
  by (relation "measure (\<lambda>(limit, i, s). limit - i)") auto

declare read_groups.simps [simp del]

definition read_ipv6_addr :: "16 word list parser" where
  "read_ipv6_addr s =
     (case read_groups 8 0 s of (head, head_ipv4, s) \<Rightarrow>
        if length head = 8 then Some (head, s)
        else if head_ipv4 then None
        else
          Option.bind (read_given_char (CHR '':'') s) (\<lambda>(_, s).
          Option.bind (read_given_char (CHR '':'') s) (\<lambda>(_, s).
            case read_groups (8 - (length head + 1)) 0 s of (tail, _, s) \<Rightarrow>
              Some (head @ replicate (8 - length head - length tail) 0 @ tail, s))))"

definition read_port :: "16 word parser" where
  "read_port s =
     Option.bind (read_given_char (CHR '':'') s) (\<lambda>(_, s).
       map_option (apfst of_nat) (read_number 10 65536 None True s))"

definition read_scope_id :: "32 word parser" where
  "read_scope_id s =
     Option.bind (read_given_char (CHR ''%'') s) (\<lambda>(_, s).
       map_option (apfst of_nat) (read_number 10 4294967296 None True s))"

definition read_socket_addr_v4 :: "socket_addr parser" where
  "read_socket_addr_v4 s =
     Option.bind (read_ipv4_addr s) (\<lambda>((a, b, c, d), s).
     Option.bind (read_port s) (\<lambda>(p, s).
       Some (SocketAddr (V4 a b c d) p 0, s)))"

definition read_socket_addr_v6 :: "socket_addr parser" where
  "read_socket_addr_v6 s =
     Option.bind (read_given_char (CHR ''['') s) (\<lambda>(_, s).
     Option.bind (read_ipv6_addr s) (\<lambda>(segs, s).
     (case (case read_scope_id s of Some (i, s) \<Rightarrow> (i, s) | None \<Rightarrow> (0, s)) of (scope, s) \<Rightarrow>
     Option.bind (read_given_char (CHR '']'') s) (\<lambda>(_, s).
     Option.bind (read_port s) (\<lambda>(p, s).
       Some (SocketAddr (V6 segs) p scope, s))))))"

text \<open>\<^verbatim>\<open>str::parse::<SocketAddr>\<close>: one of the two forms and nothing after it.\<close>

definition parse_socket_addr :: "bytes \<Rightarrow> socket_addr option" where
  "parse_socket_addr s =
     (case (case read_socket_addr_v4 s of None \<Rightarrow> read_socket_addr_v6 s | r \<Rightarrow> r) of
        Some (a, []) \<Rightarrow> Some a
      | _ \<Rightarrow> None)"

subsection \<open>Reading back what was printed\<close>

text \<open>What follows a number: nothing, or a byte that is no digit.\<close>

definition stops :: "nat \<Rightarrow> bytes \<Rightarrow> bool" where
  "stops radix s \<longleftrightarrow> s = [] \<or> to_digit radix (hd s) = None"

context radix_codec
begin

lemma read_digits_format:
  "n < limit \<Longrightarrow> \<forall>m \<in> set_option md. k + length (format_radix r n) \<le> m \<Longrightarrow>
   read_digits r limit md 0 k (format_radix r n @ s) =
     read_digits r limit md n (k + length (format_radix r n)) s"
proof (induction n arbitrary: s rule: less_induct)
  case (less n)
  show ?case
  proof (cases "n < r")
    case True
    then have f: "format_radix r n = [digit_char n]" by (subst format_radix.simps) simp
    with True less.prems show ?thesis by (auto simp: digit_of_char)
  next
    case False
    with radix_low have q: "n div r < n" "n mod r < r" by simp_all
    have n: "n div r * r + n mod r = n" by simp
    have b: "n div r * r < limit"
      using less.prems by (meson div_times_less_eq_dividend le_less_trans)
    have f: "format_radix r n = format_radix r (n div r) @ [digit_char (n mod r)]"
      using False radix_low by (subst format_radix.simps) simp
    from less.prems q(1) have "n div r < limit"
      "\<forall>m \<in> set_option md. k + length (format_radix r (n div r)) \<le> m"
      by (auto simp: f)
    from less.IH [OF q(1) this, of "digit_char (n mod r) # s"] less.prems b n show ?thesis
      by (auto simp: f digit_of_char q(2))
  qed
qed

lemma format_leading_zero: "hd (format_radix r n) = CHR ''0'' \<Longrightarrow> length (format_radix r n) \<le> 1"
proof (induction n rule: less_induct)
  case (less n)
  show ?case
  proof (cases "n < r")
    case True
    then show ?thesis by (subst format_radix.simps) simp
  next
    case False
    with radix_low have q: "n div r < n" "0 < n div r" by (simp_all add: div_greater_zero_iff)
    have f: "format_radix r n = format_radix r (n div r) @ [digit_char (n mod r)]"
      using False radix_low by (subst format_radix.simps) simp
    with less.prems have h: "hd (format_radix r (n div r)) = CHR ''0''"
      using format_nonempty by simp
    from less.IH [OF q(1) this] have l: "length (format_radix r (n div r)) \<le> 1" .
    have "n div r < r"
    proof (rule ccontr)
      assume "\<not> n div r < r"
      with l radix_low show False
        using format_nonempty [of "n div r div r"]
        by (subst (asm) format_radix.simps) simp
    qed
    with h radix_low have "digit_char (n div r) = CHR ''0''"
      by (subst (asm) format_radix.simps) simp
    moreover have "n div r < 16" using \<open>n div r < r\<close> radix_high by simp
    ultimately show ?thesis
      using q(2) code_digit_char [of "n div r"] by (auto simp: code_def split: if_splits)
  qed
qed

lemma read_number_format:
  assumes "n < limit" and "\<forall>m \<in> set_option md. length (format_radix r n) \<le> m" and "stops r s"
  shows "read_number r limit md zp (format_radix r n @ s) = Some (n, s)"
proof -
  have "read_digits r limit md n k s = Some ((n, k), s)" for k
    using assms(3) by (cases s) (auto simp: stops_def)
  with read_digits_format [OF assms(1), of md 0 s] assms(2) show ?thesis
    using format_nonempty [of n] format_leading_zero [of n]
    by (auto simp: read_number_def)
qed

lemma format_length: "n < r ^ Suc k \<Longrightarrow> length (format_radix r n) \<le> Suc k"
proof (induction k arbitrary: n)
  case 0
  then show ?case by (subst format_radix.simps) simp
next
  case (Suc k)
  show ?case
  proof (cases "n < r")
    case False
    have "n div r < r ^ Suc k"
      using Suc.prems radix_low by (simp add: less_mult_imp_div_less mult.commute)
    from Suc.IH [OF this] False radix_low show ?thesis
      by (subst format_radix.simps) simp
  qed (subst format_radix.simps, simp)
qed

end

lemma read_octet_format:
  assumes "stops 10 s"
  shows "read_octet 0 (format_word a @ s) = Some (a, s)"
    and "0 < i \<Longrightarrow> read_octet i (CHR ''.'' # format_word a @ s) = Some (a, s)"
proof -
  have a: "unat a < 256" using unsigned_less [of a] by simp
  then have "length (format_radix 10 (unat a)) \<le> 3"
    using dec.format_length [of "unat a" 2] by simp
  with a assms have "read_number 10 256 (Some 3) False (format_word a @ s) = Some (unat a, s)"
    unfolding format_word_def format_usize_def by (intro dec.read_number_format) simp_all
  then show "read_octet 0 (format_word a @ s) = Some (a, s)"
    "0 < i \<Longrightarrow> read_octet i (CHR ''.'' # format_word a @ s) = Some (a, s)"
    by (simp_all add: read_octet_def read_separator_def)
qed

lemma stops_simps [simp]: "stops 10 (CHR ''.'' # s)" "stops 10 (CHR '':'' # s)" "stops 10 []"
  by (simp_all add: stops_def to_digit_def code_def)

lemma read_ipv4_format:
  "stops 10 s \<Longrightarrow> read_ipv4_addr (format_v4 a b c d @ s) = Some ((a, b, c, d), s)"
  by (simp add: read_ipv4_addr_def format_v4_def read_octet_format)

lemma read_port_format: "read_port (CHR '':'' # format_word p) = Some (p, [])"
proof -
  have "unat p < 65536" using unsigned_less [of p] by simp
  then have "read_number 10 65536 None True (format_word p @ []) = Some (unat p, [])"
    unfolding format_word_def format_usize_def by (intro dec.read_number_format) simp_all
  then show ?thesis by (simp add: read_port_def)
qed

text \<open>An address for the concrete instances.\<close>

definition client :: socket_addr where
  "client = SocketAddr (V4 10 0 0 7) 50000 0"

end
