(* ===== verification/Steps.thy ===== *)
theory Steps
  imports Main
begin

section \<open>Labelled step relations and their invariants\<close>

text \<open>
  The concurrent parts of the program are step relations with an event per step. \<open>run\<close> is a
  sequence of steps with its events; the locale \<open>invariant_system\<close> states what an invariant must
  satisfy and proves that it holds wherever a run can lead.
\<close>

inductive run :: "('s \<Rightarrow> 'e \<Rightarrow> 's \<Rightarrow> bool) \<Rightarrow> 's \<Rightarrow> 'e list \<Rightarrow> 's \<Rightarrow> bool"
  for step and s0 where
  run_Nil [intro]: "run step s0 [] s0"
| run_snoc: "run step s0 es s \<Longrightarrow> step s e s' \<Longrightarrow> run step s0 (es @ [e]) s'"

definition reachable :: "('s \<Rightarrow> 'e \<Rightarrow> 's \<Rightarrow> bool) \<Rightarrow> 's \<Rightarrow> 's \<Rightarrow> bool" where
  "reachable step init s \<longleftrightarrow> (\<exists>es. run step init es s)"

lemma run_one: "step s e s' \<Longrightarrow> run step s [e] s'"
  using run_snoc [of step s "[]" s e s'] by auto

lemma run_two: "step s e1 s1 \<Longrightarrow> step s1 e2 s2 \<Longrightarrow> run step s [e1, e2] s2"
  using run_snoc [of step s "[e1]" s1 e2 s2] run_one [of step s e1 s1] by simp

locale invariant_system =
  fixes step :: "'s \<Rightarrow> 'e \<Rightarrow> 's \<Rightarrow> bool"
    and init :: 's
    and inv :: "'s \<Rightarrow> bool"
  assumes inv_init: "inv init"
    and inv_step: "inv s \<Longrightarrow> step s e s' \<Longrightarrow> inv s'"
begin

lemma run_inv: "run step init es s \<Longrightarrow> inv s"
  by (induction rule: run.induct) (auto intro: inv_init inv_step)

lemma reachable_inv: "reachable step init s \<Longrightarrow> inv s"
  by (auto simp: reachable_def run_inv)

text \<open>A quantity of the trace that every step keeps in balance with the state.\<close>

lemma run_measure:
  assumes "f [] init"
    and "\<And>es s e s'. inv s \<Longrightarrow> f es s \<Longrightarrow> step s e s' \<Longrightarrow> f (es @ [e]) s'"
    and "run step init es s"
  shows "f es s"
  using assms(3) by (induction rule: run.induct) (auto intro: assms(1,2) run_inv)

end

subsection \<open>Refinement\<close>

text \<open>
  A system refines an abstract one when every step, in a state where the invariant holds, is a step of
  the abstract system under the abstraction, or is not visible there. Then every run is.
\<close>

locale refinement = invariant_system step init inv
  for step :: "'s \<Rightarrow> 'e \<Rightarrow> 's \<Rightarrow> bool" and init :: 's and inv :: "'s \<Rightarrow> bool" +
  fixes spec_step :: "'t \<Rightarrow> 'f \<Rightarrow> 't \<Rightarrow> bool"
    and spec_init :: 't
    and abs_state :: "'s \<Rightarrow> 't"
    and visible :: "'e \<Rightarrow> 'f option"
  assumes abs_init: "abs_state init = spec_init"
    and abs_step: "inv s \<Longrightarrow> step s e s' \<Longrightarrow> visible e = Some f \<Longrightarrow>
      spec_step (abs_state s) f (abs_state s')"
    and abs_stutter: "inv s \<Longrightarrow> step s e s' \<Longrightarrow> visible e = None \<Longrightarrow> abs_state s' = abs_state s"
begin

lemma run_refines:
  "run step init es s \<Longrightarrow> run spec_step spec_init (List.map_filter visible es) (abs_state s)"
proof (induction rule: run.induct)
  case run_Nil
  then show ?case by (simp add: abs_init run.run_Nil List.map_filter_def)
next
  case (run_snoc es s e s')
  with run_inv [OF run_snoc.hyps(1)] abs_step abs_stutter show ?case
    by (cases "visible e") (auto simp: List.map_filter_def intro: run.run_snoc)
qed

end

subsection \<open>Two systems side by side\<close>

lemma run_mono: "(\<And>s e s'. step s e s' \<Longrightarrow> step' s e s') \<Longrightarrow> run step s0 es s \<Longrightarrow> run step' s0 es s"
  by (rotate_tac 1, induction rule: run.induct) (auto intro: run_snoc)

lemma run_append: "run step s es s' \<Longrightarrow> run step s' es' s'' \<Longrightarrow> run step s (es @ es') s''"
  by (rotate_tac 1, induction es' s'' rule: run.induct)
    (auto simp: run_snoc append_assoc [symmetric] simp del: append_assoc)

lemma run_split:
  assumes "run step s0 (es1 @ es2) s"
  obtains s1 where "run step s0 es1 s1" and "run step s1 es2 s"
proof -
  have "\<exists>s1. run step s0 es1 s1 \<and> run step s1 es2 s"
    using assms
  proof (induction "es1 @ es2" s arbitrary: es2 rule: run.induct)
    case run_Nil
    then show ?case by auto
  next
    case (run_snoc es s e s')
    show ?case
    proof (cases es2 rule: rev_exhaust)
      case Nil
      then have "run step s0 es1 s'" using run_snoc.hyps run.run_snoc [OF run_snoc.hyps(1,3)] by simp
      with Nil show ?thesis by auto
    next
      case (snoc es3 e3)
      with run_snoc.hyps(4) have e: "es = es1 @ es3" "e3 = e" by simp_all
      with run_snoc.hyps(2) obtain s1 where "run step s0 es1 s1" "run step s1 es3 s" by blast
      with run_snoc.hyps(3) snoc e show ?thesis by (auto intro: run.run_snoc)
    qed
  qed
  then show ?thesis using that by blast
qed

lemma run_empty: "run step s [] s' \<Longrightarrow> s' = s"
  by (auto elim: run.cases)

lemma run_singleton: "run step s [e] s' \<longleftrightarrow> step s e s'"
  by (auto intro: run_one elim!: run.cases [of step s "[e]"] dest: run_empty)

lemma run_three: "step s e1 s1 \<Longrightarrow> step s1 e2 s2 \<Longrightarrow> step s2 e3 s3 \<Longrightarrow> run step s [e1, e2, e3] s3"
  using run_snoc [of step s "[e1, e2]" s2 e3 s3] run_two [of step s e1 s1 e2 s2] by simp

text \<open>Steps of either system in any order.\<close>

inductive interleaved ::
    "('s \<Rightarrow> 'e \<Rightarrow> 's \<Rightarrow> bool) \<Rightarrow> ('t \<Rightarrow> 'f \<Rightarrow> 't \<Rightarrow> bool) \<Rightarrow> 's \<times> 't \<Rightarrow> 'e + 'f \<Rightarrow> 's \<times> 't \<Rightarrow> bool"
  for one two where
  left: "one s e s' \<Longrightarrow> interleaved one two (s, t) (Inl e) (s', t)"
| right: "two t f t' \<Longrightarrow> interleaved one two (s, t) (Inr f) (s, t')"

definition lefts :: "('e + 'f) list \<Rightarrow> 'e list" where
  "lefts es = map projl (filter isl es)"

definition rights :: "('e + 'f) list \<Rightarrow> 'f list" where
  "rights es = map projr (filter (Not \<circ> isl) es)"

text \<open>A run of the two is a run of each, so what holds of all runs of one holds beside the other.\<close>

lemma interleaved_runs:
  assumes "run (interleaved one two) (s0, t0) es (s, t)"
  shows "run one s0 (lefts es) s \<and> run two t0 (rights es) t"
  using assms
proof (induction es "(s, t)" arbitrary: s t rule: run.induct)
  case run_Nil
  then show ?case by (auto simp: lefts_def rights_def)
next
  case (run_snoc es q e)
  obtain s1 t1 where q: "q = (s1, t1)" by (cases q)
  from run_snoc.hyps(3) [unfolded q] run_snoc.hyps(2) [OF q] show ?case
    by (cases rule: interleaved.cases) (auto simp: lefts_def rights_def intro: run.run_snoc)
qed

end
