(* ===== verification/Listen.thy ===== *)
theory Listen
  imports Proxy NetAddr Steps "HOL-Library.Multiset"
begin

section \<open>Accepting and handling connections (tcp\_proxy.rs)\<close>

text \<open>
  \<open>TCPProxy::new\<close> and \<open>start\<close>, the accept loop \<open>listen_loop\<close> with its semaphore, and the two
  tasks of \<open>handle_conn\<close>. The loop is a step relation: its phases are the points where it waits,
  the events what the operating system, the origin and the running handlers do.
\<close>

subsection \<open>Configuration and URL bases\<close>

definition MAX_CONCURRENT_CONNECTIONS :: nat where
  "MAX_CONCURRENT_CONNECTIONS = 100"

record tcp_proxy =
  connect_timeout :: nat
  stream_timeout :: nat
  origin_url_base :: bytes
  proxy_url_base :: bytes

definition url_base :: "socket_addr \<Rightarrow> bytes" where
  "url_base a = ''http://'' @ format_ip (ip a) @ '':'' @ format_word (port a)"

definition tcp_proxy_new :: "nat \<Rightarrow> nat \<Rightarrow> socket_addr \<Rightarrow> socket_addr \<Rightarrow> tcp_proxy" where
  "tcp_proxy_new ct st origin_addr proxy_addr =
     \<lparr>connect_timeout = ct, stream_timeout = st, origin_url_base = url_base origin_addr,
      proxy_url_base = url_base proxy_addr\<rparr>"

subsection \<open>The accept loop\<close>

datatype phase =
    Accepting
  | Acquiring socket_addr
  | Connecting socket_addr
  | Stopped

record listener =
  phase_of :: phase
  permits :: nat
  sem_closed :: bool
  active :: "socket_addr multiset"

datatype listen_event =
    Accepted socket_addr
  | AcceptFailed
  | Acquired
  | SemaphoreClosed
  | Connected socket_addr
  | ConnectFailed socket_addr
  | ConnectTimedOut socket_addr
  | Finished socket_addr

definition listener_init :: listener where
  "listener_init = \<lparr>phase_of = Accepting, permits = MAX_CONCURRENT_CONNECTIONS, sem_closed = False,
     active = {#}\<rparr>"

inductive listen_step :: "listener \<Rightarrow> listen_event \<Rightarrow> listener \<Rightarrow> bool" where
  accept: "phase_of s = Accepting \<Longrightarrow>
    listen_step s (Accepted peer) (s\<lparr>phase_of := Acquiring peer\<rparr>)"
| accept_error: "phase_of s = Accepting \<Longrightarrow> listen_step s AcceptFailed s"
| acquire: "phase_of s = Acquiring peer \<Longrightarrow> \<not> sem_closed s \<Longrightarrow> permits s > 0 \<Longrightarrow>
    listen_step s Acquired (s\<lparr>phase_of := Connecting peer, permits := permits s - 1\<rparr>)"
| closed: "phase_of s = Acquiring peer \<Longrightarrow> sem_closed s \<Longrightarrow>
    listen_step s SemaphoreClosed (s\<lparr>phase_of := Stopped\<rparr>)"
| connected: "phase_of s = Connecting peer \<Longrightarrow>
    listen_step s (Connected peer) (s\<lparr>phase_of := Accepting, active := add_mset peer (active s)\<rparr>)"
| connect_error: "phase_of s = Connecting peer \<Longrightarrow>
    listen_step s (ConnectFailed peer) (s\<lparr>phase_of := Accepting, permits := permits s + 1\<rparr>)"
| timed_out: "phase_of s = Connecting peer \<Longrightarrow>
    listen_step s (ConnectTimedOut peer) (s\<lparr>phase_of := Accepting, permits := permits s + 1\<rparr>)"
| finished: "peer \<in># active s \<Longrightarrow>
    listen_step s (Finished peer) (s\<lparr>active := active s - {#peer#}, permits := permits s + 1\<rparr>)"

inductive_cases listen_stepE: "listen_step s e s'"

inductive_simps listen_step_simps:
  "listen_step s Acquired s'" "listen_step s (Finished p) s'" "listen_step s (Accepted p) s'"
  "listen_step s (Connected p) s'" "listen_step s (ConnectTimedOut p) s'"

text \<open>\<open>start\<close>: binding fails, with the error of the operating system as it is, or the loop starts.\<close>

definition start :: "bytes option \<Rightarrow> tcp_proxy \<Rightarrow> (bytes + listener)" where
  "start bind_error self =
     (case bind_error of
        Some err \<Rightarrow> Inl err
      | None \<Rightarrow> Inr listener_init)"

text \<open>The permits that are not free: those of the running handlers, and the one the loop holds while
  it connects.\<close>

fun held :: "phase \<Rightarrow> nat" where
  "held (Connecting _) = 1"
| "held _ = 0"

fun pending :: "phase \<Rightarrow> socket_addr multiset" where
  "pending (Acquiring p) = {#p#}"
| "pending (Connecting p) = {#p#}"
| "pending _ = {#}"

definition listen_inv :: "listener \<Rightarrow> bool" where
  "listen_inv s \<longleftrightarrow>
     permits s + size (active s) + held (phase_of s) = MAX_CONCURRENT_CONNECTIONS \<and>
     \<not> sem_closed s \<and> phase_of s \<noteq> Stopped"

interpretation loop: invariant_system listen_step listener_init listen_inv
proof
  show "listen_inv listener_init" by (simp add: listen_inv_def listener_init_def)
  show "listen_inv s \<Longrightarrow> listen_step s e s' \<Longrightarrow> listen_inv s'" for s e s'
    by (auto simp: listen_inv_def size_Diff_singleton dest!: multi_member_split elim!: listen_stepE)
qed

subsection \<open>One connection\<close>

text \<open>
  The two tasks of a connection: requests are copied to the origin, responses go through the
  rewriting loop. Each task owns its reading and its writing half. A task ends by returning or by
  a panic; its writing half is then dropped, which closes that direction, so that the peer sees the
  end of what it was sent. The handler ends, and returns its permit, when both tasks have ended.
\<close>

record handler =
  to_origin :: bytes
  origin_write_open :: bool
  to_client :: bytes
  client_write_open :: bool
  running :: bool
  response_panicked :: bool

definition handle_conn :: "bytes \<Rightarrow> bytes \<Rightarrow> conn \<Rightarrow> conn \<Rightarrow> handler" where
  "handle_conn ob pb requests responses =
     (let client_to_origin = io_copy requests;
          origin_to_client = proxy_response_with_rewrite ob pb responses
      in \<lparr>to_origin = out (snd client_to_origin),
          origin_write_open = (fst client_to_origin = Inl Suspended),
          to_client = out (snd origin_to_client),
          client_write_open = (fst origin_to_client = Inl Suspended),
          running = (fst client_to_origin = Inl Suspended \<or> fst origin_to_client = Inl Suspended),
          response_panicked = (fst origin_to_client = Inl Panicked)\<rparr>)"

interpretation cpy: stream_op io_copy
  by (rule stream_opI) simp

subsection \<open>Properties\<close>

text \<open>C15. At most 100 connections are handled at any time, every permit is accounted for, and the
  loop never stops.\<close>

theorem connections_bounded:
  assumes "reachable listen_step listener_init s"
  shows "permits s + size (active s) + held (phase_of s) = MAX_CONCURRENT_CONNECTIONS \<and>
    size (active s) \<le> MAX_CONCURRENT_CONNECTIONS \<and> phase_of s \<noteq> Stopped"
  using loop.reachable_inv [OF assms] by (auto simp: listen_inv_def)

lemma reach_connecting:
  "reachable listen_step listener_init
     (listener_init\<lparr>phase_of := Connecting p, permits := 99\<rparr>)"
proof -
  have "listen_step listener_init (Accepted p) (listener_init\<lparr>phase_of := Acquiring p\<rparr>)"
    by (intro accept) (simp add: listener_init_def)
  moreover have "listen_step (listener_init\<lparr>phase_of := Acquiring p\<rparr>) Acquired
      (listener_init\<lparr>phase_of := Connecting p, permits := 99\<rparr>)"
    by (simp add: listen_step_simps listener_init_def MAX_CONCURRENT_CONNECTIONS_def)
  ultimately show ?thesis unfolding reachable_def by (blast intro: run_two)
qed

theorem connections_bounded_witness:
  "99 + size ({#} :: socket_addr multiset) + held (Connecting client) = MAX_CONCURRENT_CONNECTIONS"
  using connections_bounded [OF reach_connecting, of client]
  by (simp add: listener_init_def)

text \<open>The connections an event accepts and ends.\<close>

fun accepted_of :: "listen_event \<Rightarrow> socket_addr multiset" where
  "accepted_of (Accepted p) = {#p#}"
| "accepted_of _ = {#}"

fun ended_of :: "listen_event \<Rightarrow> socket_addr multiset" where
  "ended_of (ConnectFailed p) = {#p#}"
| "ended_of (ConnectTimedOut p) = {#p#}"
| "ended_of (Finished p) = {#p#}"
| "ended_of _ = {#}"

text \<open>C30. No connection is lost or invented: the connections accepted so far are those that ended,
  those dropped because the origin could not be reached, those being handled and the one the loop
  holds.\<close>

theorem no_connection_lost:
  assumes "run listen_step listener_init es s"
  shows "(\<Sum>e\<leftarrow>es. accepted_of e) = (\<Sum>e\<leftarrow>es. ended_of e) + active s + pending (phase_of s)"
proof (rule loop.run_measure [OF _ _ assms, where f = "\<lambda>es s. (\<Sum>e\<leftarrow>es. accepted_of e) =
    (\<Sum>e\<leftarrow>es. ended_of e) + active s + pending (phase_of s)"])
  show "(\<Sum>e\<leftarrow>es @ [e]. accepted_of e) =
      (\<Sum>e\<leftarrow>es @ [e]. ended_of e) + active s' + pending (phase_of s')"
    if "(\<Sum>e\<leftarrow>es. accepted_of e) = (\<Sum>e\<leftarrow>es. ended_of e) + active s + pending (phase_of s)"
      "listen_step s e s'" "listen_inv s" for es s e s'
    using that(2,3) by (cases rule: listen_step.cases) (auto simp: that(1) listen_inv_def dest!: multi_member_split)
qed (simp add: listener_init_def)

theorem no_connection_lost_witness:
  "\<exists>s. run listen_step listener_init [Accepted client, Acquired] s \<and>
    {#client#} = active s + pending (phase_of s)"
proof -
  have r: "run listen_step listener_init [Accepted client, Acquired]
     (listener_init\<lparr>phase_of := Connecting client, permits := 99\<rparr>)"
    by (rule run_two [of _ _ _ "listener_init\<lparr>phase_of := Acquiring client\<rparr>"])
       (simp_all add: listen_step_simps listener_init_def MAX_CONCURRENT_CONNECTIONS_def)
  from no_connection_lost [OF r] r show ?thesis by auto
qed

text \<open>A connection waiting for a permit always gets one: either a permit is free, or exactly 100
  handlers are running and the end of any of them frees one.\<close>

lemma waiting_connection_served:
  assumes "reachable listen_step listener_init s" and "phase_of s = Acquiring p"
  shows "(\<exists>s'. listen_step s Acquired s') \<or>
    (size (active s) = MAX_CONCURRENT_CONNECTIONS \<and>
     (\<forall>q. q \<in># active s \<longrightarrow>
        (\<exists>s1 s2. listen_step s (Finished q) s1 \<and> listen_step s1 Acquired s2)))"
proof -
  from loop.reachable_inv [OF assms(1)] assms(2)
  have i: "permits s + size (active s) = MAX_CONCURRENT_CONNECTIONS" "\<not> sem_closed s"
    by (simp_all add: listen_inv_def)
  show ?thesis
  proof (cases "permits s = 0")
    case True
    have "\<exists>s1 s2. listen_step s (Finished q) s1 \<and> listen_step s1 Acquired s2"
      if "q \<in># active s" for q
      using that i(2) assms(2)
      by (intro exI [of _ "s\<lparr>active := active s - {#q#}, permits := permits s + 1\<rparr>"] exI
           [of _ "s\<lparr>active := active s - {#q#}, permits := permits s, phase_of := Connecting p\<rparr>"])
         (auto simp: listen_step_simps)
    with True i show ?thesis by simp
  next
    case False
    with i(2) assms(2) show ?thesis by (auto simp: listen_step_simps)
  qed
qed

text \<open>The origin's base URL is matched as a prefix: a URL on the origin's host whose port merely
  starts with the digits of the origin's port is redirected too, with the other digits left behind
  the proxy's port.\<close>

lemma longer_port_redirected:
  "rewritten_body (url_base (SocketAddr (V4 a b c d) p 0)) (url_base proxy) (url_base (SocketAddr (V4 a b c d) p 0) @ s) =
   url_base proxy @ rewritten_body (url_base (SocketAddr (V4 a b c d) p 0)) (url_base proxy) s"
proof -
  let ?o = "url_base (SocketAddr (V4 a b c d) p 0)"
  have "list_all ascii ?o"
    using list_all_asciiD [OF format_usize_token]
    by (auto simp: url_base_def format_v4_def format_word_def list_all_iff)
      (simp_all add: ascii_def code_def)
  then have "from_utf8_lossy (?o @ s) = ?o @ from_utf8_lossy s" by (rule lossy_ascii_append)
  moreover have "?o \<noteq> []" by (simp add: url_base_def)
  moreover have "pat \<noteq> [] \<Longrightarrow> replace_nonempty pat to (pat @ x) = to @ replace_nonempty pat to x" for pat to x
    by (cases pat) (simp_all add: starts_with_def)
  ultimately show ?thesis by (simp add: rewritten_body_def str_replace_def)
qed

end
