(* ===== verification/Server.thy ===== *)
theory Server
  imports Listen
begin

section \<open>The proxy as a whole: the accept loop and its connections\<close>

text \<open>
  The accept loop of \<open>Listen\<close> together with the handlers it spawns. A connection is the pair of its
  streams, named by a number; bytes and ends of streams arrive in any order and at any time, peers may
  stop reading, go on or go away, and a handler ends, returning its permit, when both its tasks have. What a handler
  has delivered at a point of a run is what \<open>handle_conn\<close> delivers on the bytes that have arrived.
\<close>

subsection \<open>The code\<close>

datatype direction = Requests | Responses

record link =
  peer :: socket_addr
  requests :: conn
  responses :: conn

definition new_stream :: conn where
  "new_stream = \<lparr>segs = [], fin = Open, out = [], room = Reads\<rparr>"

definition new_link :: "socket_addr \<Rightarrow> link" where
  "new_link p = \<lparr>peer = p, requests = new_stream, responses = new_stream\<rparr>"

fun stream :: "direction \<Rightarrow> link \<Rightarrow> conn" where
  "stream Requests k = requests k"
| "stream Responses k = responses k"

fun set_stream :: "direction \<Rightarrow> conn \<Rightarrow> link \<Rightarrow> link" where
  "set_stream Requests c k = k\<lparr>requests := c\<rparr>"
| "set_stream Responses c k = k\<lparr>responses := c\<rparr>"

text \<open>The handler of a connection, on what has arrived so far.\<close>

definition handle :: "tcp_proxy \<Rightarrow> link \<Rightarrow> handler" where
  "handle cfg k = handle_conn (origin_url_base cfg) (proxy_url_base cfg) (requests k) (responses k)"

fun delivered :: "tcp_proxy \<Rightarrow> direction \<Rightarrow> link \<Rightarrow> bytes" where
  "delivered cfg Requests k = to_origin (handle cfg k)"
| "delivered cfg Responses k = to_client (handle cfg k)"

record server =
  core :: listener
  links :: "nat \<rightharpoonup> link"
  next_id :: nat

datatype server_event =
    Loop listen_event
  | Opened socket_addr
  | Arrived direction nat bytes stream_end
  | Receiver direction nat receiver
  | Done nat

definition server_init :: server where
  "server_init = \<lparr>core = listener_init, links = Map.empty, next_id = 0\<rparr>"

text \<open>Events of the loop that concern no handler.\<close>

fun loop_only :: "listen_event \<Rightarrow> bool" where
  "loop_only (Connected _) \<longleftrightarrow> False"
| "loop_only (Finished _) \<longleftrightarrow> False"
| "loop_only _ \<longleftrightarrow> True"

text \<open>What the receiver of a stream may do next when \<open>m\<close> bytes have been delivered to it: stop reading or go
  away where it is; and, while it only stalls, take more, read on, or go away.\<close>

fun may_become :: "nat \<Rightarrow> receiver \<Rightarrow> receiver \<Rightarrow> bool" where
  "may_become m Reads (Takes j l) \<longleftrightarrow> j = m"
| "may_become m (Takes i Stalls) Reads \<longleftrightarrow> True"
| "may_become m (Takes i Stalls) (Takes j Stalls) \<longleftrightarrow> i \<le> j"
| "may_become m (Takes i Stalls) (Takes j Leaves) \<longleftrightarrow> j = m"
| "may_become m _ _ \<longleftrightarrow> False"

inductive server_step :: "tcp_proxy \<Rightarrow> server \<Rightarrow> server_event \<Rightarrow> server \<Rightarrow> bool" for cfg where
  in_loop: "listen_step (core s) e l \<Longrightarrow> loop_only e \<Longrightarrow> server_step cfg s (Loop e) (s\<lparr>core := l\<rparr>)"
| opened: "listen_step (core s) (Connected p) l \<Longrightarrow>
    server_step cfg s (Opened p)
      (s\<lparr>core := l, links := (links s)(next_id s \<mapsto> new_link p), next_id := Suc (next_id s)\<rparr>)"
| arrived: "links s n = Some k \<Longrightarrow> fin (stream d k) = Open \<Longrightarrow>
    server_step cfg s (Arrived d n t e)
      (s\<lparr>links := (links s)(n \<mapsto> set_stream d (resumed t e (stream d k)) k)\<rparr>)"
| receiver: "links s n = Some k \<Longrightarrow> may_become (length (delivered cfg d k)) (room (stream d k)) r \<Longrightarrow>
    server_step cfg s (Receiver d n r)
      (s\<lparr>links := (links s)(n \<mapsto> set_stream d ((stream d k)\<lparr>room := r\<rparr>) k)\<rparr>)"
| ended: "links s n = Some k \<Longrightarrow> \<not> running (handle cfg k) \<Longrightarrow>
    listen_step (core s) (Finished (peer k)) l \<Longrightarrow>
    server_step cfg s (Done n) (s\<lparr>core := l, links := (links s)(n := None)\<rparr>)"

inductive_cases server_stepE: "server_step cfg s e s'"

inductive_simps server_step_simps:
  "server_step cfg s (Loop e) s'" "server_step cfg s (Opened p) s'" "server_step cfg s (Done n) s'"

subsection \<open>The invariant\<close>

definition peers :: "(nat \<rightharpoonup> link) \<Rightarrow> socket_addr multiset" where
  "peers m = {#peer (the (m n)). n \<in># mset_set (dom m)#}"

lemma peers_empty [simp]: "peers Map.empty = {#}"
  by (simp add: peers_def)

lemma peers_add:
  assumes "finite (dom m)" and "n \<notin> dom m"
  shows "peers (m(n \<mapsto> k)) = add_mset (peer k) (peers m)"
proof -
  have "{#peer (the ((m(n \<mapsto> k)) i)). i \<in># mset_set (dom m)#} = peers m"
    using assms unfolding peers_def by (intro image_mset_cong) auto
  with assms show ?thesis by (simp add: peers_def)
qed

lemma peers_remove:
  assumes "finite (dom m)" and "m n = Some k"
  shows "peers m = add_mset (peer k) (peers (m(n := None)))"
  using peers_add [of "m(n := None)" n k] assms by (simp add: fun_upd_idem)

lemma peers_change:
  assumes "finite (dom m)" and "m n = Some k" and "peer k' = peer k"
  shows "peers (m(n \<mapsto> k')) = peers m"
  using peers_remove [OF assms(1,2)] peers_remove [of "m(n \<mapsto> k')" n k'] assms(1,3) by simp

lemma set_stream_facts [simp]:
  "peer (set_stream d c k) = peer k" "stream d (set_stream d c k) = c"
  "stream d' (set_stream d c k) = (if d' = d then c else stream d' k)"
  by (cases d; cases d'; simp)+

definition server_inv :: "server \<Rightarrow> bool" where
  "server_inv s \<longleftrightarrow>
     listen_inv (core s) \<and> finite (dom (links s)) \<and> (\<forall>n \<in> dom (links s). n < next_id s) \<and>
     (\<forall>k \<in> ran (links s). out (requests k) = [] \<and> out (responses k) = []) \<and>
     active (core s) = peers (links s)"

lemma ran_new: "k \<in> ran (m(n \<mapsto> k')) \<Longrightarrow> k = k' \<or> k \<in> ran m"
  by (auto simp: ran_def split: if_splits)

lemma out_unread:
  "out (requests k) = [] \<Longrightarrow> out (responses k) = [] \<Longrightarrow> out (stream d k) = []"
  by (cases d) auto

lemma out_set_stream:
  "out c = [] \<Longrightarrow> out (requests k) = [] \<Longrightarrow> out (responses k) = [] \<Longrightarrow>
   out (requests (set_stream d c k)) = [] \<and> out (responses (set_stream d c k)) = []"
  by (cases d) auto

lemma server_inv_change:
  assumes "server_inv s" and "links s n = Some k" and "out c = []"
  shows "server_inv (s\<lparr>links := (links s)(n \<mapsto> set_stream d c k)\<rparr>)"
proof -
  have "\<forall>k' \<in> ran ((links s)(n \<mapsto> set_stream d c k)). out (requests k') = [] \<and> out (responses k') = []"
    using assms out_set_stream [of c k d] by (auto simp: server_inv_def intro: ranI dest!: ran_new)
  with assms peers_change [of "links s" n k "set_stream d c k"] show ?thesis
    by (auto simp: server_inv_def)
qed

lemma server_inv_step:
  assumes "server_inv s" and "server_step cfg s e s'"
  shows "server_inv s'"
  using assms(2)
proof (cases rule: server_step.cases)
  case (in_loop e' l)
  from in_loop(3,4) have "active l = active (core s)"
    by (cases rule: listen_step.cases) auto
  with in_loop assms(1) loop.inv_step [of "core s" _ l] show ?thesis
    by (auto simp: server_inv_def)
next
  case (opened p l)
  from opened assms(1) have n: "next_id s \<notin> dom (links s)" "finite (dom (links s))"
    by (auto simp: server_inv_def)
  from opened(3) have "active l = add_mset p (active (core s))"
    by (cases rule: listen_step.cases) auto
  with opened assms(1) loop.inv_step [of "core s" _ l] peers_add [OF n(2,1), of "new_link p"] show ?thesis
    by (auto simp: server_inv_def new_link_def new_stream_def less_Suc_eq dest!: ran_new)
next
  case (arrived n k d t e)
  with assms(1) have "out (resumed t e (stream d k)) = []"
    by (auto simp: server_inv_def resumed_def intro!: out_unread ranI)
  with arrived server_inv_change [OF assms(1)] show ?thesis by simp
next
  case (receiver n k d r)
  with assms(1) have "out ((stream d k)\<lparr>room := r\<rparr>) = []"
    by (auto simp: server_inv_def intro!: out_unread ranI)
  with receiver server_inv_change [OF assms(1)] show ?thesis by simp
next
  case (ended n k l)
  from ended(5) have "active l = active (core s) - {#peer k#}"
    by (cases rule: listen_step.cases) auto
  with ended assms(1) loop.inv_step [of "core s" _ l] peers_remove [of "links s" n k] show ?thesis
    by (auto simp: server_inv_def ran_def)
qed

interpretation srv: invariant_system "server_step cfg" server_init server_inv
proof
  show "server_inv server_init"
    using loop.inv_init by (simp add: server_inv_def server_init_def) (simp add: listener_init_def)
  show "server_inv s \<Longrightarrow> server_step cfg s e s' \<Longrightarrow> server_inv s'" for s e s'
    by (rule server_inv_step)
qed

subsection \<open>What a connection has delivered\<close>

lemma delivered_of:
  "delivered cfg d k =
     (case d of
        Requests \<Rightarrow> out (snd (io_copy (requests k)))
      | Responses \<Rightarrow>
          out (snd (proxy_response_with_rewrite (origin_url_base cfg) (proxy_url_base cfg) (responses k))))"
  by (cases d) (simp_all add: handle_def handle_conn_def Let_def)

lemma delivered_cong: "stream d k = stream d k' \<Longrightarrow> delivered cfg d k = delivered cfg d k'"
  by (cases d) (simp_all add: delivered_of)

lemma delivered_new: "delivered cfg d (new_link p) = []"
proof (cases d)
  case Requests
  then show ?thesis
    by (simp add: delivered_of new_link_def new_stream_def io_copy_def at_end_def)
next
  case Responses
  have "out (snd (proxy_response_with_rewrite ob pb new_stream)) =
      out new_stream @ concat (map (proxied ob pb) [])" for ob pb
    by (rule conjunct1 [OF proxy_responses]) (simp_all add: new_stream_def data_def)
  with Responses show ?thesis by (simp add: delivered_of new_link_def) (simp add: new_stream_def)
qed

lemma delivered_resumed:
  "fin (stream d k) = Open \<Longrightarrow>
   prefix (delivered cfg d k) (delivered cfg d (set_stream d (resumed t e (stream d k)) k))"
  by (cases d) (simp_all add: delivered_of cpy.resumed_output [OF _ same_view_refl] prx.resumed_output [OF _ same_view_refl])

text \<open>To a receiver that takes \<open>k\<close> bytes the first \<open>k\<close> bytes are delivered of what one that reads gets.\<close>

lemma delivered_room:
  assumes "out (stream d k) = []"
  shows "delivered cfg d (set_stream d ((stream d k)\<lparr>room := Takes i l\<rparr>) k) =
    take i (delivered cfg d (set_stream d ((stream d k)\<lparr>room := Reads\<rparr>) k))"
  using assms cpy.capped_output [of "(requests k)\<lparr>room := Reads\<rparr>" i l]
    prx.capped_output [of "(responses k)\<lparr>room := Reads\<rparr>" i "origin_url_base cfg" "proxy_url_base cfg" l]
  by (cases d) (simp_all add: delivered_of capped_def)

lemma set_same_room: "set_stream d ((stream d k)\<lparr>room := room (stream d k)\<rparr>) k = k"
  by (cases d) simp_all

lemma delivered_receiver:
  assumes "out (stream d k) = []" and "may_become (length (delivered cfg d k)) (room (stream d k)) r"
  shows "prefix (delivered cfg d k) (delivered cfg d (set_stream d ((stream d k)\<lparr>room := r\<rparr>) k))"
proof -
  let ?all = "delivered cfg d (set_stream d ((stream d k)\<lparr>room := Reads\<rparr>) k)"
  have now: "delivered cfg d k = (case room (stream d k) of Reads \<Rightarrow> ?all | Takes i l \<Rightarrow> take i ?all)"
  proof (cases "room (stream d k)")
    case Reads
    with set_same_room [of d k] show ?thesis by simp
  next
    case (Takes i l)
    with set_same_room [of d k] delivered_room [OF assms(1), of cfg i l] show ?thesis by simp
  qed
  have "delivered cfg d (set_stream d ((stream d k)\<lparr>room := r\<rparr>) k) =
      (case r of Reads \<Rightarrow> ?all | Takes i l \<Rightarrow> take i ?all)"
    using delivered_room [OF assms(1), of cfg] by (cases r) simp_all
  with now assms(2) show ?thesis
    by (cases "(length (delivered cfg d k), room (stream d k), r)" rule: may_become.cases)
       (auto simp: take_is_prefix prefix_take_take)
qed

lemma delivered_step:
  assumes "server_step cfg s e s'" and "links s n = Some k" and "links s' n = Some k'" and "server_inv s"
  shows "prefix (delivered cfg d k) (delivered cfg d k')"
  using assms(1)
proof (cases rule: server_step.cases)
  case (in_loop e l)
  with assms show ?thesis by simp
next
  case (opened p l)
  with assms show ?thesis by (auto simp: server_inv_def split: if_splits)
next
  case (arrived i j d' t e)
  with assms(2,3) delivered_cong [of d j "set_stream d' (resumed t e (stream d' j)) j" cfg]
    delivered_resumed [of d' j cfg t e]
  show ?thesis by (cases "i = n"; cases "d = d'") auto
next
  case (receiver i j d' r)
  from receiver(3) assms(4) have "out (stream d' j) = []"
    by (auto simp: server_inv_def intro!: out_unread ranI)
  from delivered_receiver [OF this receiver(4)] receiver assms(2,3)
    delivered_cong [of d j "set_stream d' ((stream d' j)\<lparr>room := r\<rparr>) j" cfg]
  show ?thesis by (cases "i = n"; cases "d = d'") auto
next
  case (ended i j l)
  with assms show ?thesis by (auto split: if_splits)
qed

lemma links_fresh: "server_step cfg s e s' \<Longrightarrow> server_inv s \<Longrightarrow> n < next_id s \<Longrightarrow>
  n < next_id s' \<and> (links s n = None \<longrightarrow> links s' n = None)"
  by (auto elim!: server_step.cases simp: server_inv_def)

lemma delivered_run:
  assumes "server_inv s" and "links s n = Some k" and "run (server_step cfg) s es s'"
  shows "server_inv s' \<and> n < next_id s' \<and> (\<forall>k'. links s' n = Some k' \<longrightarrow> prefix (delivered cfg d k) (delivered cfg d k'))"
  using assms(3)
proof (induction rule: run.induct)
  case run_Nil
  with assms(1,2) show ?case by (auto simp: server_inv_def)
next
  case (run_snoc es s1 e s2)
  then have "server_inv s2" "n < next_id s2" "links s1 n = None \<longrightarrow> links s2 n = None"
    using server_inv_step links_fresh by blast+
  moreover have "prefix (delivered cfg d k) (delivered cfg d k2)"
    if "links s1 n = Some k1" "links s2 n = Some k2" for k1 k2
    using run_snoc.IH that delivered_step [OF run_snoc.hyps(2) that] prefix_order.trans by blast
  ultimately show ?case by (cases "links s1 n") auto
qed

subsection \<open>Properties\<close>

text \<open>What a connection has delivered, in either direction, is never taken back or changed: along
  every run of the whole proxy, with any number of other connections opening and closing, what its
  peers receive is only extended.\<close>

lemma delivery_only_grows:
  assumes "reachable (server_step cfg) server_init s" and "run (server_step cfg) s es s'"
    and "links s n = Some k" and "links s' n = Some k'"
  shows "prefix (delivered cfg d k) (delivered cfg d k')"
  using delivered_run [OF srv.reachable_inv [OF assms(1)] assms(3,2)] assms(4) by blast

text \<open>A proxy that listens on one address for a server on another, with one client connected.\<close>

definition sample_cfg :: tcp_proxy where
  "sample_cfg = tcp_proxy_new 10 300 (SocketAddr (V4 10 0 0 2) 1 0) (SocketAddr (V4 10 0 0 1) 2 0)"

definition full :: "nat \<Rightarrow> server" where
  "full n = \<lparr>core = \<lparr>phase_of = Accepting, permits = MAX_CONCURRENT_CONNECTIONS - n, sem_closed = False,
                   active = replicate_mset n client\<rparr>,
             links = (\<lambda>i. if i < n then Some (new_link client) else None), next_id = n\<rparr>"

lemma full_init: "full 0 = server_init"
  by (simp add: full_def server_init_def listener_init_def)

lemma full_Suc:
  assumes "n < MAX_CONCURRENT_CONNECTIONS"
  shows "run (server_step cfg) (full n) [Loop (Accepted client), Loop Acquired, Opened client] (full (Suc n))"
proof -
  let ?a = "(full n)\<lparr>core := (core (full n))\<lparr>phase_of := Acquiring client\<rparr>\<rparr>"
  let ?b = "(full n)\<lparr>core := (core (full n))\<lparr>phase_of := Connecting client,
              permits := MAX_CONCURRENT_CONNECTIONS - Suc n\<rparr>\<rparr>"
  have "server_step cfg (full n) (Loop (Accepted client)) ?a"
    by (simp add: server_step_simps listen_step_simps full_def)
  moreover have "server_step cfg ?a (Loop Acquired) ?b"
    using assms by (simp add: server_step_simps listen_step_simps full_def)
  moreover have "server_step cfg ?b (Opened client) (full (Suc n))"
    by (auto simp add: server_step_simps listen_step_simps full_def less_Suc_eq)
  ultimately show ?thesis by (rule run_three)
qed

lemma full_reachable: "n \<le> MAX_CONCURRENT_CONNECTIONS \<Longrightarrow> reachable (server_step cfg) server_init (full n)"
proof (induction n)
  case 0
  then show ?case by (auto simp: reachable_def full_init)
next
  case (Suc n)
  then show ?case
    using full_Suc [of n cfg] by (auto simp: reachable_def intro: run_append)
qed

lemma full_links: "n < m \<Longrightarrow> links (full m) n = Some (new_link client)"
  by (simp add: full_def)

definition after_sample :: server where
  "after_sample = (full 1)\<lparr>links := (links (full 1))(0 \<mapsto>
     set_stream Responses (resumed (resp_wire sample) Open new_stream) (new_link client))\<rparr>"

lemma sample_arrived:
  "server_step cfg (full 1) (Arrived Responses 0 (resp_wire sample) Open) after_sample"
  using server_step.arrived [OF full_links [of 0 1], of Responses cfg "resp_wire sample" Open]
  by (simp add: after_sample_def new_link_def new_stream_def)

lemma after_sample_reachable: "reachable (server_step cfg) server_init after_sample"
  using full_reachable [of 1 cfg] sample_arrived [of cfg]
  by (auto simp: reachable_def MAX_CONCURRENT_CONNECTIONS_def intro: run_snoc)

text \<open>What a connection whose peers still read has delivered, and when its handler ends.\<close>

lemma served:
  assumes "reachable (server_step cfg) server_init s" and "links s n = Some k"
    and "room (requests k) = Reads" and "room (responses k) = Reads"
    and "data (responses k) = concat (map resp_wire rs)"
    and "list_all resp_ok rs" and "list_all fits rs"
  shows "delivered cfg Requests k = data (requests k) \<and>
    (origin_write_open (handle cfg k) \<longleftrightarrow> fin (requests k) = Open) \<and>
    delivered cfg Responses k = concat (map (proxied (origin_url_base cfg) (proxy_url_base cfg)) rs) \<and>
    (client_write_open (handle cfg k) \<longleftrightarrow> fin (responses k) = Open) \<and>
    ((\<exists>s'. server_step cfg s (Done n) s') \<longleftrightarrow> fin (requests k) \<noteq> Open \<and> fin (responses k) \<noteq> Open)"
proof -
  let ?p = "proxy_response_with_rewrite (origin_url_base cfg) (proxy_url_base cfg) (responses k)"
  from srv.reachable_inv [OF assms(1)] have i: "server_inv s" .
  with assms(2) have out: "out (requests k) = []" "out (responses k) = []"
    by (auto simp: server_inv_def intro: ranI)
  from i assms(2) peers_remove [of "links s" n k] have "peer k \<in># active (core s)"
    by (simp add: server_inv_def)
  then have d: "(\<exists>s'. server_step cfg s (Done n) s') \<longleftrightarrow> \<not> running (handle cfg k)"
    using assms(2) by (auto simp: server_step_simps listen_step_simps)
  have q: "out (snd (io_copy (requests k))) = data (requests k)"
    "fst (io_copy (requests k)) = Inl Suspended \<longleftrightarrow> fin (requests k) = Open"
    using cpy.same_output [OF flat_view [OF assms(3)]] out(1)
    by (auto simp: flat_copy at_end_def split: stream_end.splits)
  have r: "out (snd ?p) = concat (map (proxied (origin_url_base cfg) (proxy_url_base cfg)) rs)"
    "fst ?p = Inl Suspended \<longleftrightarrow> fin (responses k) = Open"
    using proxy_responses [OF assms(5,4,6,7), of "origin_url_base cfg" "proxy_url_base cfg"] out(2)
    by (auto split: stream_end.splits)
  from q r d show ?thesis
    by (auto simp: delivered_of) (auto simp: handle_def handle_conn_def Let_def)
qed

text \<open>C3. In every reachable state, whatever the other connections do: a connection whose peers still read
  has delivered to the origin the client's bytes unchanged and to the client the origin's complete
  responses as the specification rewrites them between the two URL bases; each direction is closed
  towards its receiver exactly when its sender has ended, so that a peer that waits for the end sees
  it; and the handler ends and returns its permit exactly when both peers have ended.\<close>

theorem connection_served:
  assumes "reachable (server_step cfg) server_init s" and "links s n = Some k"
    and "room (requests k) = Reads" and "room (responses k) = Reads"
    and "data (responses k) = concat (map resp_wire rs)"
    and "list_all resp_ok rs" and "list_all fits rs"
  shows "delivered cfg Requests k = data (requests k) \<and>
    (origin_write_open (handle cfg k) \<longleftrightarrow> fin (requests k) = Open) \<and>
    delivered cfg Responses k = concat (map (proxied (origin_url_base cfg) (proxy_url_base cfg)) rs) \<and>
    (client_write_open (handle cfg k) \<longleftrightarrow> fin (responses k) = Open) \<and>
    ((\<exists>s'. server_step cfg s (Done n) s') \<longleftrightarrow> fin (requests k) \<noteq> Open \<and> fin (responses k) \<noteq> Open)"
  using assms by (rule served)

theorem connection_served_witness:
  "delivered sample_cfg Responses (the (links after_sample 0)) =
     proxied (origin_url_base sample_cfg) (proxy_url_base sample_cfg) sample"
proof -
  let ?k = "set_stream Responses (resumed (resp_wire sample) Open new_stream) (new_link client)"
  have "links after_sample 0 = Some ?k" by (simp add: after_sample_def)
  from connection_served [OF after_sample_reachable this, of "[sample]" sample_cfg] this show ?thesis
    by (simp add: new_link_def new_stream_def resumed_def data_def sample_facts(1) samples_fit)
qed

text \<open>Events in which no client ends its stream of requests and no origin stops reading them.\<close>

fun clients_idle :: "server_event \<Rightarrow> bool" where
  "clients_idle (Arrived Requests _ _ e) \<longleftrightarrow> e = Open"
| "clients_idle (Receiver Requests _ _) \<longleftrightarrow> False"
| "clients_idle _ \<longleftrightarrow> True"

definition idle :: "link \<Rightarrow> bool" where
  "idle k \<longleftrightarrow> fin (requests k) = Open \<and> room (requests k) = Reads"

definition blocked :: "socket_addr \<Rightarrow> server \<Rightarrow> bool" where
  "blocked p s \<longleftrightarrow>
     phase_of (core s) = Acquiring p \<and> permits (core s) = 0 \<and> \<not> sem_closed (core s) \<and>
     (\<forall>k \<in> ran (links s). idle k)"

lemma idle_running: "idle k \<Longrightarrow> running (handle cfg k)"
  using cpy.from_flat [of "requests k"]
  by (simp add: idle_def handle_def handle_conn_def Let_def flat_copy at_end_def)

lemma idle_change: "idle k \<Longrightarrow> d = Requests \<longrightarrow> fin c = Open \<and> room c = Reads \<Longrightarrow> idle (set_stream d c k)"
  by (cases d) (auto simp: idle_def)

lemma blocked_step:
  assumes "blocked p s" and "server_step cfg s e s'" and "clients_idle e"
  shows "blocked p s'"
  using assms(2)
proof (cases rule: server_step.cases)
  case (in_loop e l)
  from in_loop(3,4) assms(1) show ?thesis by (cases rule: listen_step.cases) (auto simp: blocked_def)
next
  case (opened q l)
  from opened(3) assms(1) show ?thesis by (cases rule: listen_step.cases) (auto simp: blocked_def)
next
  case (arrived n k d t e')
  from assms(1) arrived(3) have "idle k" by (auto simp: blocked_def intro: ranI)
  then have "idle (set_stream d (resumed t e' (stream d k)) k)"
    using arrived(1) assms(3) by (intro idle_change) (auto simp: resumed_def idle_def)
  with assms(1) arrived(2) show ?thesis by (auto simp: blocked_def dest!: ran_new)
next
  case (receiver n k d r)
  from assms(1) receiver(3) have "idle k" by (auto simp: blocked_def intro: ranI)
  then have "idle (set_stream d c k)" for c
    using receiver(1) assms(3) by (cases d) (auto simp: idle_def)
  with assms(1) receiver(2) show ?thesis by (auto simp: blocked_def dest!: ran_new)
next
  case (ended n k l)
  from assms(1) ended(3) have "idle k" by (auto simp: blocked_def intro: ranI)
  with ended(4) idle_running show ?thesis by blast
qed

text \<open>C28. Idle clients stop the service for everyone: once the permits are used up by clients that just
  keep their connections open, a further client waits, in every run in which none of them closes,
  however long, whether or not the origin closes or resets the connections, for no timeout applies
  to them.\<close>

theorem idle_clients_block_service:
  assumes "reachable (server_step cfg) server_init s" and "phase_of (core s) = Acquiring p"
    and "permits (core s) = 0" and "\<forall>k \<in> ran (links s). idle k"
    and "run (server_step cfg) s es s'" and "list_all clients_idle es"
  shows "phase_of (core s') = Acquiring p \<and> \<not> (\<exists>s''. server_step cfg s' (Loop Acquired) s'')"
proof -
  have "blocked p s"
    using srv.reachable_inv [OF assms(1)] assms(2-4)
    by (simp add: blocked_def server_inv_def listen_inv_def)
  with assms(5,6) have "blocked p s'"
    by (induction rule: run.induct) (auto intro: blocked_step)
  then show ?thesis by (auto simp: blocked_def server_step_simps listen_step_simps)
qed

theorem idle_clients_block_service_witness:
  "\<exists>s s'. run (server_step sample_cfg) s [Arrived Responses 5 (resp_wire sample) Closed] s' \<and>
     size (active (core s)) = 100 \<and> phase_of (core s') = Acquiring client"
proof -
  let ?s = "(full 100)\<lparr>core := (core (full 100))\<lparr>phase_of := Acquiring client\<rparr>\<rparr>"
  have "server_step sample_cfg (full 100) (Loop (Accepted client)) ?s"
    by (simp add: server_step_simps listen_step_simps full_def)
  with full_reachable [of 100 sample_cfg] have s: "reachable (server_step sample_cfg) server_init ?s"
    by (auto simp: reachable_def MAX_CONCURRENT_CONNECTIONS_def intro: run_snoc)
  obtain s' where "server_step sample_cfg ?s (Arrived Responses 5 (resp_wire sample) Closed) s'"
    using server_step.arrived [of ?s 5 "new_link client" Responses]
    by (auto simp: full_def new_link_def new_stream_def)
  then have r: "run (server_step sample_cfg) ?s [Arrived Responses 5 (resp_wire sample) Closed] s'"
    by (rule run_one)
  have "\<forall>k \<in> ran (links ?s). idle k"
    by (auto simp: full_def ran_def idle_def new_link_def new_stream_def split: if_splits)
  from idle_clients_block_service [OF s _ _ this r, of client] r show ?thesis
    by (intro exI [of _ ?s] exI [of _ s']) (simp add: full_def MAX_CONCURRENT_CONNECTIONS_def)
qed

end
