(* ===== verification/Ending.thy ===== *)
theory Ending
  imports Server
begin

section \<open>No handler outlives its peers\<close>

text \<open>
  Every wait of a forwarding task is a wait for bytes of its stream or for space at its receiver. So on
  a stream that has ended, by a close or a reset, and with a receiver that reads or is gone, every
  operation comes to an end, whatever bytes it carried: garbage, cut heads, wrong lengths or chunks.
  \<open>ends_at\<close> is this contract at one state, shown for each operation by the shape of its body; its
  consequence is when permits come back. The other side of it is that a receiver which stalls holds
  its permit for ever, for no timeout applies to a write.
\<close>

subsection \<open>The contract\<close>

fun stalls :: "receiver \<Rightarrow> bool" where
  "stalls (Takes _ Stalls) \<longleftrightarrow> True"
| "stalls _ \<longleftrightarrow> False"

definition ends_at :: "'a io \<Rightarrow> conn \<Rightarrow> bool" where
  "ends_at m c \<longleftrightarrow>
     fin (snd (m c)) = fin c \<and> stalls (room (snd (m c))) = stalls (room c) \<and>
     (fin c \<noteq> Open \<longrightarrow> \<not> stalls (room c) \<longrightarrow> fst (m c) \<noteq> Inl Suspended)"

lemma beyond_suspended: "beyond l = Suspended \<longleftrightarrow> l = Stalls"
  by (cases l) simp_all

lemma stalls_iff: "stalls r \<longleftrightarrow> (\<exists>k. r = Takes k Stalls)"
  by (cases r rule: stalls.cases) auto

named_theorems ends \<open>operations end on a stream that has ended, by the shape of their bodies\<close>

lemma ends_bind [ends]:
  "ends_at m c \<Longrightarrow> (\<And>x c1. m c = (Inr x, c1) \<Longrightarrow> ends_at (f x) c1) \<Longrightarrow> ends_at (io_bind m f) c"
  by (cases "m c"; cases "fst (m c)") (auto simp: ends_at_def bind_stop bind_go)

lemma ends_cases [ends]:
  "(b \<Longrightarrow> ends_at f c) \<Longrightarrow> (\<not> b \<Longrightarrow> ends_at g c) \<Longrightarrow> ends_at (\<lambda>c. if b then f c else g c) c"
  "(\<And>e. r = Inl e \<Longrightarrow> ends_at (f1 e) c) \<Longrightarrow> (\<And>x. r = Inr x \<Longrightarrow> ends_at (g1 x) c) \<Longrightarrow>
   ends_at (\<lambda>c. case r of Inl e \<Rightarrow> f1 e c | Inr x \<Rightarrow> g1 x c) c"
  "(q = None \<Longrightarrow> ends_at f c) \<Longrightarrow> (\<And>x. q = Some x \<Longrightarrow> ends_at (g2 x) c) \<Longrightarrow>
   ends_at (\<lambda>c. case q of None \<Rightarrow> f c | Some x \<Rightarrow> g2 x c) c"
  "(\<And>a b. p = (a, b) \<Longrightarrow> ends_at (f3 a b) c) \<Longrightarrow> ends_at (\<lambda>c. case p of (a, b) \<Rightarrow> f3 a b c) c"
  by (cases b, simp_all) (cases r; cases q; cases p; simp)+

subsection \<open>The operations\<close>

lemma ends_primitives [simp, ends]:
  "ends_at (io_return x) c" "ends_at (write_all b) c" "ends_at flush c"
  "ends_at read_line_bytes c" "ends_at (read_exact n) c"
  using read_line_view [of c] read_exact_view [of n c]
  by (auto simp: ends_at_def io_return_def write_all_def flush_def stalls_iff beyond_suspended split: receiver.split option.split stream_end.splits)

lemma ends_throw [ends]: "e \<noteq> Suspended \<Longrightarrow> ends_at (io_throw e) c"
  by (simp add: ends_at_def io_throw_def)

lemma ends_forwards:
  assumes "forwards_at n r m c"
  shows "ends_at m c"
  using assms
  by (auto simp: forwards_at_def ends_at_def write_all_def io_return_def stalls_iff beyond_suspended
      split: receiver.splits option.splits if_splits stream_end.splits)

lemma ends_copies [simp, ends]: "ends_at (forward_bytes n) c" "ends_at io_copy c"
  by (rule ends_forwards, rule forward_bytes_forwards, rule ends_forwards, rule io_copy_forwards)

lemma ends_pass_through [simp, ends]: "ends_at pass_through_chunked c"
proof (induction c rule: pass_through_chunked.induct)
  case (1 c)
  show ?case
    by (subst pass_through_eq) (intro ends 1, (assumption | simp)+)
qed

lemma ends_read_chunks [simp, ends]: "ends_at (read_chunks max_size body) c"
proof (induction max_size body c rule: read_chunks.induct)
  case (1 max_size body c)
  show ?case
    by (subst read_chunks_eq) (intro ends 1, (assumption | simp)+)
qed

lemma ends_read_head [simp, ends]: "ends_at (read_head hb st) c"
proof (induction hb st c rule: read_head.induct)
  case (1 hb st c)
  show ?case
    by (subst read_head_eq) (intro ends 1, (assumption | simp)+)
qed

lemma ends_bodies [simp, ends]:
  "ends_at (forward_body cl ch) c" "ends_at (read_body cl ch) c"
  "ends_at (send_rewritten ob pb hs cl ch b) c" "ends_at (stream_rest hb) c"
  by (auto simp: forward_body_def read_body_def send_rewritten_def stream_rest_def Let_def
      read_chunked_body_def write_chunked_body_def split: option.split intro!: ends)

lemma ends_proxy [simp]: "ends_at (proxy_response_with_rewrite ob pb) c"
proof (induction ob pb c rule: proxy_response_with_rewrite.induct)
  case (1 ob pb c)
  show ?case
    by (subst proxy_eq) (intro ends 1, (assumption | simp)+)
qed

subsection \<open>Property\<close>

text \<open>A handler whose receivers read or have gone away waits for nothing once its senders have ended.\<close>

lemma handler_stops:
  assumes "fin (requests k) \<noteq> Open" and "fin (responses k) \<noteq> Open"
    and "\<not> stalls (room (requests k))" and "\<not> stalls (room (responses k))"
  shows "\<not> running (handle cfg k)"
  using assms ends_copies(2) [of "requests k"]
    ends_proxy [of "origin_url_base cfg" "proxy_url_base cfg" "responses k"]
  by (simp add: handle_def handle_conn_def Let_def ends_at_def)

text \<open>C27. A handler never outlives peers that are done: in every reachable state, once the client and the
  origin of a connection have closed or reset their streams, and neither is still connected without
  reading, so that what is sent to it is taken or refused, its handler can end and return its permit,
  whatever bytes they had sent.\<close>

theorem handler_ends:
  assumes "reachable (server_step cfg) server_init s" and "links s n = Some k"
    and "fin (requests k) \<noteq> Open" and "fin (responses k) \<noteq> Open"
    and "\<not> stalls (room (requests k))" and "\<not> stalls (room (responses k))"
  shows "\<exists>s'. server_step cfg s (Done n) s' \<and> links s' n = None \<and>
    permits (core s') = Suc (permits (core s))"
proof -
  from srv.reachable_inv [OF assms(1)] assms(2) peers_remove [of "links s" n k]
  have "peer k \<in># active (core s)" by (simp add: server_inv_def)
  with handler_stops [OF assms(3-6), of cfg] show ?thesis
    using assms(2) by (auto simp: server_step_simps listen_step_simps)
qed

theorem handler_ends_witness:
  "\<exists>s k s'. links s 0 = Some k \<and> data (responses k) = ''junk'' \<and> server_step sample_cfg s (Done 0) s'"
proof -
  let ?k1 = "set_stream Requests (resumed [] Closed new_stream) (new_link client)"
  let ?k2 = "set_stream Responses (resumed ''junk'' Reset new_stream) ?k1"
  let ?s1 = "(full 1)\<lparr>links := (links (full 1))(0 \<mapsto> ?k1)\<rparr>"
  let ?s2 = "?s1\<lparr>links := (links ?s1)(0 \<mapsto> ?k2)\<rparr>"
  have "server_step sample_cfg (full 1) (Arrived Requests 0 [] Closed) ?s1"
    using server_step.arrived [OF full_links [of 0 1], of Requests sample_cfg "[]" Closed]
    by (simp add: new_link_def new_stream_def)
  moreover have "server_step sample_cfg ?s1 (Arrived Responses 0 ''junk'' Reset) ?s2"
    using server_step.arrived [of ?s1 0 ?k1 Responses sample_cfg "''junk''" Reset]
    by (simp add: new_link_def new_stream_def)
  ultimately have s: "reachable (server_step sample_cfg) server_init ?s2"
    using full_reachable [of 1 sample_cfg]
    by (auto simp: reachable_def MAX_CONCURRENT_CONNECTIONS_def intro: run_snoc)
  have k: "links ?s2 0 = Some ?k2" "data (responses ?k2) = ''junk''"
    by (simp_all add: resumed_def data_def new_stream_def)
  from handler_ends [OF s k(1)] obtain s' where "server_step sample_cfg ?s2 (Done 0) s'"
    by (auto simp: resumed_def new_link_def new_stream_def)
  with k show ?thesis by blast
qed












end
