(* ===== verification/Text.thy ===== *)
theory Text
  imports Listen
begin

section \<open>The strings the proxy builds are strings\<close>

text \<open>
  A Rust \<^verbatim>\<open>String\<close> holds valid UTF-8. The model's strings are byte lists, so this is a theorem about
  the operations that build them: decoding, replacing URLs, updating the head. Replacing is safe
  because the URL bases are ASCII and an ASCII byte is never inside a longer sequence.
\<close>

subsection \<open>Valid text stays valid when cut at or joined with ASCII text\<close>

lemma utf8_valid_append: "utf8_valid a \<Longrightarrow> utf8_valid (a @ b) = utf8_valid b"
proof (induction a rule: utf8_induct)
  case (Seq s)
  let ?n = "snd (utf8_step s)"
  from Seq.prems Seq.hyps have v: "fst (utf8_step s)" "utf8_valid (drop ?n s)"
    by (simp_all add: utf8_valid_step)
  have "utf8_step (take ?n s @ drop ?n s @ b) = utf8_step s"
    by (rule utf8_step_append [OF v(1) Seq.hyps])
  then have "utf8_step (s @ b) = utf8_step s"
    by (simp add: append_assoc [symmetric] del: append_assoc)
  with v Seq.IH Seq.hyps utf8_step_le [OF Seq.hyps] show ?case
    by (simp add: utf8_valid_step [of "s @ b"])
qed simp

lemma utf8_valid_separator:
  assumes "list_all ascii a" and "a \<noteq> []"
  shows "utf8_valid (p @ a @ q) \<longleftrightarrow> utf8_valid p \<and> utf8_valid q"
  using assms utf8_valid_append [OF utf8_valid_all_ascii, of "tl a" q]
  by (cases a) (simp_all add: utf8_valid_ascii_split)

lemma utf8_valid_join:
  "list_all ascii sep \<Longrightarrow> sep \<noteq> [] \<Longrightarrow> utf8_valid (join sep ps) \<longleftrightarrow> (\<forall>p \<in> set ps. utf8_valid p)"
  by (induction sep ps rule: join.induct) (simp_all add: utf8_valid_separator)

lemma utf8_valid_replace:
  assumes "utf8_valid s" and "list_all ascii pat" "pat \<noteq> []" and "list_all ascii to" "to \<noteq> []"
  shows "utf8_valid (str_replace s pat to)"
  using assms(1) utf8_valid_join [OF assms(2,3), of "pieces pat s"]
    utf8_valid_join [OF assms(4,5), of "pieces pat s"] assms(3)
  by (simp add: str_replace_def replace_pieces join_pieces)

lemma utf8_valid_lines: "utf8_valid s \<Longrightarrow> l \<in> set (lines s) \<Longrightarrow> utf8_valid l"
proof (induction s rule: lines_induct)
  case (Line k s)
  have "utf8_valid (strip_cr k)" if "utf8_valid k"
    using that strip_cr_cases [of k] utf8_valid_ascii_split [of CR "strip_cr k" "[]"] by auto
  with Line show ?case by (auto simp: lines_line utf8_valid_ascii_split)
qed (auto simp: lines_last)

lemma utf8_valid_concat: "\<forall>l \<in> set ls. utf8_valid l \<Longrightarrow> utf8_valid (concat ls)"
  by (induction ls) (simp_all add: utf8_valid_append)

lemma ascii_texts [simp]:
  "list_all ascii (format_usize n)" "list_all ascii (format_hex n)" "list_all ascii (format_word w)"
  "list_all ascii CRLF"
  by (simp_all add: list_all_asciiD format_hex_def hex.format_token format_word_def)

lemma ascii_segments [simp]: "list_all ascii (format_segments ss)"
  by (induction ss rule: format_segments.induct) (simp_all, simp_all add: ascii_def code_def)

lemma ascii_punct [simp]: "ascii (CHR '':'')" "ascii (CHR ''.'')" "ascii (CHR ''f'')"
  by (simp_all add: ascii_def code_def)

lemma ascii_ip [simp]: "list_all ascii (format_ip a)"
  by (cases a) (auto simp: format_v4_def format_v6_def split: option.split prod.split)

lemma ascii_url_base: "list_all ascii (url_base a)" "url_base a \<noteq> []"
  unfolding url_base_def by (simp_all, simp add: ascii_def code_def)

lemma utf8_valid_update:
  assumes "utf8_valid s"
  shows "utf8_valid (update_content_length s n)"
proof -
  have "utf8_valid (''Content-Length: '' @ format_usize n @ CRLF)"
    by (rule utf8_valid_all_ascii) (simp, simp add: ascii_def code_def)
  moreover have "utf8_valid (l @ CRLF)" if "l \<in> set (lines s)" for l
    using utf8_valid_lines [OF assms that] by (simp add: utf8_valid_append)
  ultimately show ?thesis
    unfolding update_content_length_def by (intro utf8_valid_concat) auto
qed

subsection \<open>The rewritten response\<close>

text \<open>The strings the proxy builds are valid UTF-8, as their type says, whatever bytes the origin sent and
  whatever the addresses: the rewritten body and the head it is sent with.\<close>

lemma proxy_strings_valid:
  "utf8_valid (rewritten_body (url_base origin) (url_base proxy) body) \<and>
   utf8_valid (updated_headers (from_utf8_lossy header_buf) content_length m n)"
  by (simp add: rewritten_body_def updated_headers_def utf8_valid_replace ascii_url_base
      utf8_valid_update)

end
