(* ===== verification/Packet.thy ===== *)
theory Packet
  imports RustNum
begin

section \<open>SSDP packets (ssdp/packet.rs)\<close>

text \<open>
  The three packets and their text. The date of an \<^verbatim>\<open>ssdp:ok\<close> is formatted by \<^verbatim>\<open>chrono\<close>: it is
  a parameter, the RFC 2822 date string of the time the packet is formatted. The lemmas read the
  headers back from the text.
\<close>

datatype ssdp_packet =
    Alive (desc_url: bytes) (server_ua: bytes) (unique_device_name: bytes) (device_type: bytes)
      (cache_max_age: nat)
  | Ok (desc_url: bytes) (server_ua: bytes) (unique_device_name: bytes) (device_type: bytes)
      (cache_max_age: nat)
  | ByeBye (unique_device_name: bytes) (device_type: bytes)

fun to_string :: "bytes \<Rightarrow> ssdp_packet \<Rightarrow> bytes" where
  "to_string now_rfc2822 (Alive location server udn dt max_age) =
     ''NOTIFY * HTTP/1.1'' @ CRLF @
     ''HOST:239.255.255.250:1900'' @ CRLF @
     ''CACHE-CONTROL:max-age='' @ format_usize max_age @ CRLF @
     ''LOCATION:'' @ location @ CRLF @
     ''SERVER: '' @ server @ CRLF @
     ''NT:'' @ dt @ CRLF @
     ''USN:'' @ udn @ ''::'' @ dt @ CRLF @
     ''NTS:ssdp:alive'' @ CRLF @
     CRLF"
| "to_string now_rfc2822 (Ok location server udn dt max_age) =
     ''HTTP/1.1 200 OK'' @ CRLF @
     ''CACHE-CONTROL:max-age='' @ format_usize max_age @ CRLF @
     ''DATE: '' @ str_replace now_rfc2822 ''+0000'' ''GMT'' @ CRLF @
     ''ST: '' @ dt @ CRLF @
     ''USN:'' @ udn @ ''::'' @ dt @ CRLF @
     ''EXT:'' @ CRLF @
     ''SERVER: '' @ server @ CRLF @
     ''LOCATION:'' @ location @ CRLF @
     ''Content-Length: 0'' @ CRLF @
     CRLF"
| "to_string now_rfc2822 (ByeBye udn dt) =
     ''NOTIFY * HTTP/1.1'' @ CRLF @
     ''HOST:239.255.255.250:1900'' @ CRLF @
     ''NT:'' @ dt @ CRLF @
     ''USN:'' @ udn @ ''::'' @ dt @ CRLF @
     ''NTS:ssdp:byebye'' @ CRLF @
     CRLF"

subsection \<open>Reading the headers back\<close>

text \<open>The headers a control point reads: per line the name up to the colon and the value after it
  and any spaces.\<close>

definition header_of :: "bytes \<Rightarrow> bytes \<times> bytes" where
  "header_of l =
     (takeWhile (\<lambda>b. b \<noteq> CHR '':'') l,
      dropWhile (\<lambda>b. b = CHR '' '') (tl (dropWhile (\<lambda>b. b \<noteq> CHR '':'') l)))"

definition packet_headers :: "bytes \<Rightarrow> bytes \<times> (bytes \<times> bytes) list" where
  "packet_headers s = (hd (lines s), map header_of (butlast (tl (lines s))))"

text \<open>A field that stays one header value: no line end in it and no leading space.\<close>

definition plain :: "bytes \<Rightarrow> bool" where
  "plain s \<longleftrightarrow> LF \<notin> set s \<and> (s = [] \<or> hd s \<noteq> CHR '' '')"

lemma plain_LF: "plain s \<Longrightarrow> LF \<notin> set s"
  by (simp add: plain_def)

lemma plain_dropWhile: "plain s \<Longrightarrow> dropWhile (\<lambda>b. b = CHR '' '') s = s"
  by (cases s) (auto simp: plain_def)

lemma plain_usn: "plain a \<Longrightarrow> plain b \<Longrightarrow> plain (a @ CHR '':'' # CHR '':'' # b)"
  by (cases a) (auto simp: plain_def)

lemma format_usize_plain: "plain (format_usize n)"
  using dec.format_digits [of _ n] dec.format_nonempty [of n] dec.format_free(4,7) [of n]
  by (auto simp: plain_def format_usize_def) (metis hd_in_set)

text \<open>One header line at a time.\<close>

lemma lines_header:
  "LF \<notin> set n \<Longrightarrow> LF \<notin> set v \<Longrightarrow> lines (n @ v @ CR # LF # s) = (n @ v) # lines s"
  using lines_CRLF [of "n @ v" s] by simp

lemma lines_blank: "lines CRLF = [[]]"
  using lines_CRLF [of "[]" "[]"] by simp

lemma header_of_split:
  "CHR '':'' \<notin> set n \<Longrightarrow> plain v \<Longrightarrow> header_of (n @ CHR '':'' # v) = (n, v)"
  "CHR '':'' \<notin> set n \<Longrightarrow> plain v \<Longrightarrow> header_of (n @ CHR '':'' # CHR '' '' # v) = (n, v)"
  by (simp_all add: header_of_def plain_dropWhile)

lemma lines_concat: "\<forall>l \<in> set ls. LF \<notin> set l \<Longrightarrow> lines (concat (map (\<lambda>l. l @ CRLF) ls)) = ls"
  by (induction ls) simp_all

lemmas header_reading = plain_usn plain_LF [OF format_usize_plain]

text \<open>Each packet is one start line and its headers, each with the value of its field.\<close>

lemma notify_headers:
  assumes "plain location" and "plain server" and "plain udn" and "plain dt"
  shows "packet_headers (to_string now (Alive location server udn dt n)) =
    (''NOTIFY * HTTP/1.1'',
     [(''HOST'', ''239.255.255.250:1900''), (''CACHE-CONTROL'', ''max-age='' @ format_usize n),
      (''LOCATION'', location), (''SERVER'', server), (''NT'', dt),
      (''USN'', udn @ ''::'' @ dt), (''NTS'', ''ssdp:alive'')]) \<and>
    packet_headers (to_string now (ByeBye udn dt)) =
    (''NOTIFY * HTTP/1.1'',
     [(''HOST'', ''239.255.255.250:1900''), (''NT'', dt),
      (''USN'', udn @ ''::'' @ dt), (''NTS'', ''ssdp:byebye'')])"
proof -
  let ?alive = "[''NOTIFY * HTTP/1.1'', ''HOST:239.255.255.250:1900'',
    ''CACHE-CONTROL:max-age='' @ format_usize n, ''LOCATION:'' @ location, ''SERVER: '' @ server,
    ''NT:'' @ dt, ''USN:'' @ udn @ ''::'' @ dt, ''NTS:ssdp:alive'', []]"
  let ?byebye = "[''NOTIFY * HTTP/1.1'', ''HOST:239.255.255.250:1900'',
    ''NT:'' @ dt, ''USN:'' @ udn @ ''::'' @ dt, ''NTS:ssdp:byebye'', []]"
  have "lines (to_string now (Alive location server udn dt n)) = ?alive"
    "lines (to_string now (ByeBye udn dt)) = ?byebye"
    using lines_concat [of ?alive] lines_concat [of ?byebye] assms header_reading(2) [of n]
    by (auto dest: plain_LF)
  note l = this
  show ?thesis
    unfolding packet_headers_def l
    using header_of_split(1) [of "''LOCATION''" location] header_of_split(2) [of "''SERVER''" server]
      header_of_split(1) [of "''NT''" dt] header_of_split(1) [of "''USN''" "udn @ ''::'' @ dt"]
      header_of_split(1) [of "''CACHE-CONTROL''" "''max-age='' @ format_usize n"]
      header_reading assms
    by (simp add: plain_def) (simp add: header_of_def)
qed

lemma ok_headers:
  assumes "plain location" and "plain server" and "plain udn" and "plain dt"
    and "plain (str_replace now ''+0000'' ''GMT'')"
  shows "packet_headers (to_string now (Ok location server udn dt n)) =
    (''HTTP/1.1 200 OK'',
     [(''CACHE-CONTROL'', ''max-age='' @ format_usize n),
      (''DATE'', str_replace now ''+0000'' ''GMT''), (''ST'', dt), (''USN'', udn @ ''::'' @ dt),
      (''EXT'', []), (''SERVER'', server), (''LOCATION'', location), (''Content-Length'', ''0'')])"
proof -
  let ?date = "str_replace now ''+0000'' ''GMT''"
  let ?ok = "[''HTTP/1.1 200 OK'', ''CACHE-CONTROL:max-age='' @ format_usize n, ''DATE: '' @ ?date,
    ''ST: '' @ dt, ''USN:'' @ udn @ ''::'' @ dt, ''EXT:'', ''SERVER: '' @ server,
    ''LOCATION:'' @ location, ''Content-Length: 0'', []]"
  have l: "lines (to_string now (Ok location server udn dt n)) = ?ok"
    using lines_concat [of ?ok] assms header_reading(2) [of n] by (auto dest: plain_LF)
  show ?thesis
    unfolding packet_headers_def l
    using header_of_split(1) [of "''LOCATION''" location] header_of_split(2) [of "''SERVER''" server]
      header_of_split(2) [of "''DATE''" ?date] header_of_split(2) [of "''ST''" dt]
      header_of_split(1) [of "''USN''" "udn @ ''::'' @ dt"]
      header_of_split(1) [of "''CACHE-CONTROL''" "''max-age='' @ format_usize n"]
      header_reading assms
    by (simp add: plain_def) (simp add: header_of_def)
qed

text \<open>Fields of the concrete instances.\<close>

lemma plain_samples:
  "plain ''http://10.0.0.1:8200/d.xml''" "plain ''Srv/1.0''" "plain ''uuid:1''"
  "plain ''urn:schemas-upnp-org:device:MediaServer:1''"
  by code_simp+

text \<open>C34. A control point reads back what the program means: the headers of each of the three packets are
  those of its kind, in order, each with the value of its field, whenever the fields are free of line
  ends.\<close>

theorem packets_read_back:
  assumes "plain location" and "plain server" and "plain udn" and "plain dt"
    and "plain (str_replace now ''+0000'' ''GMT'')"
  shows "packet_headers (to_string now (Alive location server udn dt n)) =
    (''NOTIFY * HTTP/1.1'',
     [(''HOST'', ''239.255.255.250:1900''), (''CACHE-CONTROL'', ''max-age='' @ format_usize n),
      (''LOCATION'', location), (''SERVER'', server), (''NT'', dt),
      (''USN'', udn @ ''::'' @ dt), (''NTS'', ''ssdp:alive'')]) \<and>
    packet_headers (to_string now (ByeBye udn dt)) =
    (''NOTIFY * HTTP/1.1'',
     [(''HOST'', ''239.255.255.250:1900''), (''NT'', dt),
      (''USN'', udn @ ''::'' @ dt), (''NTS'', ''ssdp:byebye'')]) \<and>
    packet_headers (to_string now (Ok location server udn dt n)) =
    (''HTTP/1.1 200 OK'',
     [(''CACHE-CONTROL'', ''max-age='' @ format_usize n),
      (''DATE'', str_replace now ''+0000'' ''GMT''), (''ST'', dt), (''USN'', udn @ ''::'' @ dt),
      (''EXT'', []), (''SERVER'', server), (''LOCATION'', location), (''Content-Length'', ''0'')])"
  using notify_headers [OF assms(1-4)] ok_headers [OF assms] by simp

theorem packets_read_back_witness:
  "packet_headers (to_string ''Tue, 1 Jul 2025 10:52:37 +0000''
      (ByeBye ''uuid:1'' ''urn:schemas-upnp-org:device:MediaServer:1'')) =
    (''NOTIFY * HTTP/1.1'',
     [(''HOST'', ''239.255.255.250:1900''), (''NT'', ''urn:schemas-upnp-org:device:MediaServer:1''),
      (''USN'', ''uuid:1::urn:schemas-upnp-org:device:MediaServer:1''), (''NTS'', ''ssdp:byebye'')])"
proof -
  have "plain (str_replace ''Tue, 1 Jul 2025 10:52:37 +0000'' ''+0000'' ''GMT'')"
    by code_simp
  from packets_read_back [OF plain_samples this, of 1790] show ?thesis by simp
qed

text \<open>The method token of a packet: what comes before its first space.\<close>

lemma packet_token: "takeWhile (\<lambda>b. b \<noteq> CHR '' '') (to_string now p) \<in> {''NOTIFY'', ''HTTP/1.1''}"
  by (cases p) simp_all

lemma packet_length: "20 \<le> length (to_string now p)"
  by (cases p) simp_all

end
