(* ===== verification/Description.thy ===== *)
theory Description
  imports RustStr
begin

section \<open>The device description (ssdp/utils.rs)\<close>

text \<open>
  The structs \<open>DLNADescription\<close> and \<open>DLNADevice\<close> with the deserialisation their declarations derive,
  on the element tree that the XML parser gives. The parser (\<^verbatim>\<open>quick_xml\<close>) is not part of the
  repository: it is a parameter, and \<open>xml_ok\<close> states what its documentation promises of a part of the
  well-formed documents: elements with attributes and with text or elements in them, and an XML
  declaration. Comments, character and entity references, self-closing elements, prefixed element
  names, CDATA and doctypes are outside of it; of documents that have these nothing is claimed. \<open>reference_xml\<close> is a small parser that meets the contract, for the instances.
\<close>

subsection \<open>The structs\<close>

record dlna_device =
  device_type_of :: bytes
  udn_of :: bytes

record dlna_description =
  device_of :: dlna_device

text \<open>An element: its name, its text without the white space around it, its child elements.\<close>

datatype xml = Xml (tag: bytes) (node_text: bytes) (children: "xml list")

type_synonym xml_parser = "bytes \<Rightarrow> xml option"

text \<open>A field of a derived struct: the child element of that name; none or more than one is an error,
  other children are ignored. The name of the root element is not looked at.\<close>

definition struct_field :: "bytes \<Rightarrow> xml \<Rightarrow> xml option" where
  "struct_field name x =
     (case filter (\<lambda>c. tag c = name) (children x) of
        [c] \<Rightarrow> Some c
      | _ \<Rightarrow> None)"

definition string_field :: "bytes \<Rightarrow> xml \<Rightarrow> bytes option" where
  "string_field name x =
     (case struct_field name x of
        Some (Xml _ content []) \<Rightarrow> Some content
      | _ \<Rightarrow> None)"

definition read_device :: "xml \<Rightarrow> dlna_device option" where
  "read_device x =
     (case (string_field ''deviceType'' x, string_field ''UDN'' x) of
        (Some device_type, Some unique_device_name) \<Rightarrow>
          Some \<lparr>device_type_of = device_type, udn_of = unique_device_name\<rparr>
      | _ \<Rightarrow> None)"

definition read_description :: "xml \<Rightarrow> dlna_description option" where
  "read_description x =
     (case struct_field ''device'' x of
        Some d \<Rightarrow> map_option (\<lambda>device. \<lparr>device_of = device\<rparr>) (read_device d)
      | None \<Rightarrow> None)"

text \<open>\<^verbatim>\<open>quick_xml::de::from_str\<close> at \<open>DLNADescription\<close>.\<close>

definition from_str :: "xml_parser \<Rightarrow> bytes \<Rightarrow> dlna_description option" where
  "from_str parser body = Option.bind (parser body) read_description"

subsection \<open>Documents\<close>

text \<open>A piece of markup: the white space before it, the name and the attributes of the element, its child
  elements, and the characters after the last of them.\<close>

datatype markup = Markup bytes bytes "(bytes \<times> bytes) list" "markup list" bytes

definition name_byte :: "byte \<Rightarrow> bool" where
  "name_byte b \<longleftrightarrow> alphanumeric b \<or> b \<in> set ''-_.''"

definition blank_byte :: "byte \<Rightarrow> bool" where
  "blank_byte b \<longleftrightarrow> b \<in> set '' '' \<or> code b = 9 \<or> b = LF \<or> b = CR"

definition blank :: "bytes \<Rightarrow> bool" where
  "blank s \<longleftrightarrow> list_all blank_byte s"

abbreviation QUOTE :: byte where "QUOTE \<equiv> CHR 0x22"

definition attribute_text :: "bytes \<times> bytes \<Rightarrow> bytes" where
  "attribute_text a = '' '' @ fst a @ ''='' @ [QUOTE] @ snd a @ [QUOTE]"

fun markup_text :: "markup \<Rightarrow> bytes" where
  "markup_text (Markup gap name attributes parts content) =
     gap @ ''<'' @ name @ concat (map attribute_text attributes) @ ''>'' @
     concat (map markup_text parts) @ content @ ''</'' @ name @ ''>''"

definition document :: "bool \<Rightarrow> markup \<Rightarrow> bytes" where
  "document declaration m =
     (if declaration then ''<?xml version='' @ [QUOTE] @ ''1.0'' @ [QUOTE] @ ''?>'' else []) @ markup_text m"

definition plain_byte :: "byte \<Rightarrow> bool" where
  "plain_byte b \<longleftrightarrow> b \<notin> set ''<>&'' \<and> b \<noteq> QUOTE \<and> b \<noteq> CR"

definition attribute_ok :: "bytes \<times> bytes \<Rightarrow> bool" where
  "attribute_ok a \<longleftrightarrow> fst a \<noteq> [] \<and> list_all (\<lambda>b. name_byte b \<or> b = CHR '':'') (fst a) \<and>
     list_all plain_byte (snd a)"

text \<open>No mixed content, no references, no white space around a text and no carriage return in it.\<close>

definition content_ok :: "bytes \<Rightarrow> bool" where
  "content_ok t \<longleftrightarrow>
     blank t \<or> list_all plain_byte t \<and> \<not> blank_byte (hd t) \<and> \<not> blank_byte (last t)"

fun markup_ok :: "markup \<Rightarrow> bool" where
  "markup_ok (Markup gap name attributes parts content) \<longleftrightarrow>
     blank gap \<and> name \<noteq> [] \<and> list_all name_byte name \<and> list_all attribute_ok attributes \<and>
     distinct (map fst attributes) \<and> list_all markup_ok parts \<and> content_ok content \<and> (parts \<noteq> [] \<longrightarrow> blank content)"

fun tree :: "markup \<Rightarrow> xml" where
  "tree (Markup gap name attributes parts content) =
     Xml name (if blank content then [] else content) (map tree parts)"

subsection \<open>The contract of the parser\<close>

definition xml_ok :: "xml_parser \<Rightarrow> bool" where
  "xml_ok parser \<longleftrightarrow>
     (\<forall>declaration m. markup_ok m \<longrightarrow>
        parser (document declaration m) = Some (tree m))"

lemma from_str_document:
  "xml_ok parser \<Longrightarrow> markup_ok m \<Longrightarrow> from_str parser (document declaration m) = read_description (tree m)"
  by (simp add: xml_ok_def from_str_def)

subsection \<open>A parser that meets the contract\<close>

lemma closing_shorter: "starts_with (dropWhile P b) ''</'' \<Longrightarrow> length (dropWhile P b) - n < length b \<or> n = 0"
proof -
  assume "starts_with (dropWhile P b) ''</''"
  then obtain s where "dropWhile P b = ''</'' @ s" by (auto simp: starts_with_prefix prefix_def)
  then have "0 < length (dropWhile P b)" by simp
  with length_dropWhile_le [of P b] show ?thesis by linarith
qed

lemma opening_shorter: "dropWhile P b \<noteq> [] \<Longrightarrow> length (dropWhile Q (dropWhile P b)) - Suc 0 < length b"
proof -
  assume "dropWhile P b \<noteq> []"
  then have "0 < length (dropWhile P b)" by (simp del: dropWhile_eq_Nil_conv)
  with length_dropWhile_le [of P b] length_dropWhile_le [of Q "dropWhile P b"] show ?thesis by linarith
qed

text \<open>The open elements with the children seen so far, latest first, and the bytes to come.\<close>

function parse_xml :: "(bytes \<times> xml list) list \<Rightarrow> bytes \<Rightarrow> xml option" where
  "parse_xml open b =
     (let content = takeWhile (\<lambda>b. b \<noteq> CHR ''<'') b; r = dropWhile (\<lambda>b. b \<noteq> CHR ''<'') b
      in if starts_with r ''</'' then
           (case open of
              [] \<Rightarrow> None
            | (name, kids) # up \<Rightarrow>
                if starts_with (drop 2 r) (name @ ''>'') then
                  (let node = Xml name (if blank content then [] else content) (rev kids)
                   in case up of
                        [] \<Rightarrow> Some node
                      | (name', kids') # up' \<Rightarrow>
                          parse_xml ((name', node # kids') # up') (drop (length name + 3) r))
                else None)
         else if takeWhile name_byte (tl r) = [] then None
         else parse_xml ((takeWhile name_byte (tl r), []) # open) (tl (dropWhile (\<lambda>b. b \<noteq> CHR ''>'') r)))"
  by auto
termination
  by (relation "measure (\<lambda>(open, b). length b)")
     (auto dest: closing_shorter [where n = "_ + 3"] intro!: opening_shorter)

declare parse_xml.simps [simp del]

lemma name_stop:
  "\<not> name_byte (CHR '' '')" "\<not> name_byte (CHR ''>'')" "\<not> name_byte (CHR ''/'')" "\<not> name_byte (CHR ''<'')"
  "\<not> blank_byte (CHR ''<'')" "\<not> plain_byte (CHR ''<'')" "\<not> plain_byte (CHR ''>'')"
  by (auto simp: name_byte_def alphanumeric_def blank_byte_def plain_byte_def code_def)

lemma list_all_notin: "list_all P s \<Longrightarrow> \<not> P b \<Longrightarrow> b \<notin> set s"
  by (auto simp: list_all_iff)

lemma attributes_no_gt:
  assumes "list_all attribute_ok attributes"
  shows "CHR ''>'' \<notin> set (concat (map attribute_text attributes))"
proof -
  have "CHR ''>'' \<notin> set (attribute_text a)" if "a \<in> set attributes" for a
    using assms that name_stop(2) list_all_notin [where P = plain_byte and b = "CHR ''>''"] name_stop(7)
    by (auto simp: list_all_iff attribute_ok_def attribute_text_def)
  then show ?thesis by auto
qed

lemma name_then_attributes:
  assumes "list_all name_byte name"
  shows "takeWhile name_byte (name @ concat (map attribute_text attributes) @ CHR ''>'' # s) = name"
proof (cases attributes)
  case (Cons a rest)
  then show ?thesis
    using span_first(1) [where P = name_byte and y = "CHR '' ''", OF assms name_stop(1)]
    by (simp add: attribute_text_def)
qed (use span_first(1) [where P = name_byte and y = "CHR ''>''", OF assms name_stop(2)] in simp)

lemma parse_open:
  assumes "blank gap" and "name \<noteq> []" and "list_all name_byte name" and "list_all attribute_ok attributes"
  shows "parse_xml st (gap @ CHR ''<'' # name @ concat (map attribute_text attributes) @ CHR ''>'' # s) =
    parse_xml ((name, []) # st) s"
proof -
  have gap: "CHR ''<'' \<notin> set gap" using assms(1) name_stop(5) by (auto simp: blank_def list_all_iff)
  have name: "CHR ''>'' \<notin> set name" using list_all_notin [OF assms(3) name_stop(2)] .
  have "hd name \<noteq> CHR ''/''" using assms(2,3) name_stop(3) by (cases name) auto
  then have no_close: "\<not> starts_with (CHR ''<'' # name @ x) ''</''" for x
    using assms(2) by (cases name) (simp_all add: starts_with_def)
  show ?thesis
    using gap name attributes_no_gt [OF assms(4)] no_close assms(2)
    by (subst parse_xml.simps) (simp add: Let_def name_then_attributes [OF assms(3)])
qed

lemma parse_close:
  assumes "CHR ''<'' \<notin> set content"
  shows "parse_xml ((name, kids) # up) (content @ CHR ''<'' # CHR ''/'' # name @ CHR ''>'' # s) =
    (let node = Xml name (if blank content then [] else content) (rev kids)
     in case up of
          [] \<Rightarrow> Some node
        | (name', kids') # up' \<Rightarrow> parse_xml ((name', node # kids') # up') s)"
proof -
  have "drop (length name + 3) (CHR ''<'' # CHR ''/'' # name @ CHR ''>'' # s) = s"
    by (simp add: numeral_3_eq_3)
  with assms show ?thesis
    by (subst parse_xml.simps) (simp add: Let_def starts_with_def split: list.split)
qed

lemma parse_markup:
  "markup_ok m \<Longrightarrow> parse_xml st (markup_text m @ s) =
     (case st of
        [] \<Rightarrow> Some (tree m)
      | (name, kids) # up \<Rightarrow> parse_xml ((name, tree m # kids) # up) s)"
proof (induction m arbitrary: st s)
  case (Markup gap name attributes parts content)
  have parts: "parse_xml ((name, kids) # st) (concat (map markup_text ps) @ s') =
      parse_xml ((name, rev (map tree ps) @ kids) # st) s'" if "set ps \<subseteq> set parts" for ps kids s'
    using that
  proof (induction ps arbitrary: kids)
    case (Cons p ps)
    then have "markup_ok p" using Markup.prems by (simp add: list_all_iff)
    with Cons Markup.IH [of p] show ?case by simp
  qed simp
  have content: "CHR ''<'' \<notin> set content"
    using Markup.prems list_all_notin [where P = plain_byte and b = "CHR ''<''"] name_stop(5,6)
    by (auto simp: content_ok_def blank_def list_all_iff)
  from Markup.prems parts [OF order_refl, of "[]"] show ?case
    by (simp add: parse_open parse_close [OF content] Let_def split: list.split)
qed

definition reference_xml :: xml_parser where
  "reference_xml b =
     parse_xml [] (if starts_with b ''<?'' then tl (dropWhile (\<lambda>b. b \<noteq> CHR ''>'') b) else b)"

lemma reference_xml_ok: "xml_ok reference_xml"
proof -
  have "\<not> starts_with (markup_text m) ''<?''" if "markup_ok m" for m
  proof (cases m)
    case (Markup gap name attributes parts content)
    with that have m: "blank gap" "name \<noteq> []" "list_all name_byte name" by simp_all
    have "\<not> name_byte (CHR ''?'')" by (simp add: name_byte_def alphanumeric_def code_def)
    with m(2,3) have "hd name \<noteq> CHR ''?''" by (cases name) auto
    moreover have "gap \<noteq> [] \<Longrightarrow> hd gap \<noteq> CHR ''<''"
      using m(1) name_stop(5) by (cases gap) (auto simp: blank_def)
    ultimately show ?thesis
      using m(2) by (cases gap; cases name) (simp_all add: Markup starts_with_def)
  qed
  with parse_markup [of _ "[]" "[]"] show ?thesis
    by (auto simp: xml_ok_def reference_xml_def document_def starts_with_def)
qed

end
