(* ===== verification/Interactive.thy ===== *)
theory Interactive
  imports Packet NetAddr Description
begin

section \<open>Fetching the description and sending packets (ssdp/utils.rs)\<close>

text \<open>
  \<open>InteractiveSSDP\<close> fetches the description of the remote server over HTTP and sends one
  packet. The HTTP client (\<^verbatim>\<open>reqwest\<close>) and the UDP socket are the environment of one call: the
  outcome of the request and whether the datagram could be sent. Only connecting has a timeout, so a
  request may also never complete: then the task that makes it takes no further step. The XML
  deserialiser
  (\<^verbatim>\<open>quick_xml\<close>) is a parameter, \<open>parser\<close> (theory \<open>Description\<close>). The three send operations share a contract, the
  locale \<open>packet_sender\<close>.
\<close>

subsection \<open>The code\<close>

record endpoint_info =
  info_device_type :: bytes
  info_udn :: bytes
  info_server :: bytes

record interactive_ssdp =
  remote_desc_url :: bytes
  max_age_of :: nat

text \<open>The outcome of the HTTP request: no response, or a response with its \<^verbatim>\<open>Server\<close> header and
  its body as text, where it could be read.\<close>

datatype http_outcome =
    NoResponse
  | Response "bytes option" "bytes option"

record env =
  http :: http_outcome
  now :: bytes
  udp_ok :: bool

text \<open>An \<^verbatim>\<open>anyhow\<close> error: by its outermost context, or an I/O error that was given none.\<close>

datatype failure =
    Context bytes
  | Io bytes

type_synonym datagram = "bytes \<times> socket_addr"

definition interactive_new :: "bytes \<Rightarrow> nat \<Rightarrow> interactive_ssdp" where
  "interactive_new url max_age = \<lparr>remote_desc_url = url, max_age_of = max_age\<rparr>"

definition fetch_endpoint_info ::
    "xml_parser \<Rightarrow> env \<Rightarrow> failure + endpoint_info" where
  "fetch_endpoint_info parser e =
     (case http e of
        NoResponse \<Rightarrow> Inl (Context ''Failed to get description of remote endpoint.'')
      | Response server text \<Rightarrow>
          (let server_ua = (case server of Some hv \<Rightarrow> from_utf8_lossy hv | None \<Rightarrow> ''DLNAProxy/1.0'')
           in case text of
                None \<Rightarrow> Inl (Context ''Failed to parse response's body as text.'')
              | Some body \<Rightarrow>
                  (case from_str parser body of
                     None \<Rightarrow> Inl (Context ''Failed to parse device's XML description.'')
                   | Some device_description \<Rightarrow>
                       Inr \<lparr>info_device_type = device_type_of (device_of device_description),
                            info_udn = udn_of (device_of device_description),
                                   info_server = server_ua\<rparr>)))"

text \<open>\<open>SSDPPacket::send_to\<close>, through \<open>InteractiveSSDP::send_to\<close>: one datagram or an error.\<close>

definition send_to :: "env \<Rightarrow> socket_addr \<Rightarrow> ssdp_packet \<Rightarrow> (failure + unit) \<times> datagram list" where
  "send_to e dest p =
     (if udp_ok e then (Inr (), [(to_string (now e) p, dest)])
      else (Inl (Context ''Failed to send SSDP packet on UDP socket''), []))"

definition send_alive ::
    "xml_parser \<Rightarrow> interactive_ssdp \<Rightarrow> env \<Rightarrow> socket_addr \<Rightarrow>
     (failure + unit) \<times> datagram list" where
  "send_alive parser self e dest =
     (case fetch_endpoint_info parser e of
        Inl err \<Rightarrow> (Inl err, [])
      | Inr info \<Rightarrow>
          send_to e dest (Alive (remote_desc_url self) (info_server info) (info_udn info)
                            (info_device_type info) (max_age_of self)))"

definition send_ok ::
    "xml_parser \<Rightarrow> interactive_ssdp \<Rightarrow> env \<Rightarrow> socket_addr \<Rightarrow>
     (failure + unit) \<times> datagram list" where
  "send_ok parser self e dest =
     (case fetch_endpoint_info parser e of
        Inl err \<Rightarrow> (Inl err, [])
      | Inr info \<Rightarrow>
          send_to e dest (Ok (remote_desc_url self) (info_server info) (info_udn info)
                            (info_device_type info) (max_age_of self)))"

definition send_byebye ::
    "xml_parser \<Rightarrow> interactive_ssdp \<Rightarrow> env \<Rightarrow> socket_addr \<Rightarrow>
     (failure + unit) \<times> datagram list" where
  "send_byebye parser self e dest =
     (case fetch_endpoint_info parser e of
        Inl err \<Rightarrow> (Inl err, [])
      | Inr info \<Rightarrow> send_to e dest (ByeBye (info_udn info) (info_device_type info)))"

subsection \<open>The contract of a send operation\<close>

text \<open>
  A send operation puts one packet, built from the endpoint's description, on the wire, or fails
  and sends nothing: it succeeds exactly when the description could be fetched and the datagram
  sent.
\<close>

locale packet_sender =
  fixes send :: "xml_parser \<Rightarrow> interactive_ssdp \<Rightarrow> env \<Rightarrow> socket_addr \<Rightarrow>
      (failure + unit) \<times> datagram list"
    and build :: "interactive_ssdp \<Rightarrow> endpoint_info \<Rightarrow> ssdp_packet"
  assumes sent: "fetch_endpoint_info x e = Inr info \<Longrightarrow> udp_ok e \<Longrightarrow>
      send x s e dest = (Inr (), [(to_string (now e) (build s info), dest)])"
    and refused: "fetch_endpoint_info x e = Inr info \<Longrightarrow> \<not> udp_ok e \<Longrightarrow>
      isl (fst (send x s e dest)) \<and> snd (send x s e dest) = []"
    and unfetched: "fetch_endpoint_info x e = Inl err \<Longrightarrow> send x s e dest = (Inl err, [])"
begin

lemma sends:
  "snd (send x s e dest) =
    (case fetch_endpoint_info x e of
       Inl _ \<Rightarrow> []
     | Inr info \<Rightarrow> if udp_ok e then [(to_string (now e) (build s info), dest)] else [])"
proof (cases "fetch_endpoint_info x e")
  case (Inr info)
  then show ?thesis
    using sent [OF Inr] refused [OF Inr] by (cases "udp_ok e") simp_all
qed (simp add: unfetched)

lemma ok_iff_sent: "fst (send x s e dest) = Inr () \<longleftrightarrow> snd (send x s e dest) \<noteq> []"
proof (cases "fetch_endpoint_info x e")
  case (Inr info)
  show ?thesis
  proof (cases "udp_ok e")
    case False
    with refused [OF Inr False, of s dest] show ?thesis
      by (cases "fst (send x s e dest)") simp_all
  qed (simp add: sent [OF Inr])
qed (simp add: unfetched)

lemma at_most_one: "length (snd (send x s e dest)) \<le> 1"
  by (simp add: sends split: sum.split)

lemma only_to_dest: "(b, d) \<in> set (snd (send x s e dest)) \<Longrightarrow>
    d = dest \<and> (\<exists>info. fetch_endpoint_info x e = Inr info \<and> b = to_string (now e) (build s info))"
  by (cases "fetch_endpoint_info x e") (auto simp: sends split: if_splits)

end

definition build_alive :: "interactive_ssdp \<Rightarrow> endpoint_info \<Rightarrow> ssdp_packet" where
  "build_alive s info = Alive (remote_desc_url s) (info_server info) (info_udn info)
     (info_device_type info) (max_age_of s)"

definition build_ok :: "interactive_ssdp \<Rightarrow> endpoint_info \<Rightarrow> ssdp_packet" where
  "build_ok s info = Ok (remote_desc_url s) (info_server info) (info_udn info)
     (info_device_type info) (max_age_of s)"

definition build_byebye :: "interactive_ssdp \<Rightarrow> endpoint_info \<Rightarrow> ssdp_packet" where
  "build_byebye s info = ByeBye (info_udn info) (info_device_type info)"

interpretation alive: packet_sender send_alive build_alive
  by unfold_locales (simp_all add: send_alive_def send_to_def build_alive_def)

interpretation okay: packet_sender send_ok build_ok
  by unfold_locales (simp_all add: send_ok_def send_to_def build_ok_def)

interpretation byebye: packet_sender send_byebye build_byebye
  by unfold_locales (simp_all add: send_byebye_def send_to_def build_byebye_def)

text \<open>A description server for the concrete instances.\<close>

definition sample_markup :: markup where
  "sample_markup =
     Markup [LF] ''root'' [(''xmlns'', ''urn:d'')]
       [Markup '' '' ''major'' [] [] ''1'',
        Markup [LF] ''device'' []
          [Markup [LF] ''deviceType'' [] [] ''urn:t'', Markup [] ''icon'' [] [] [], Markup [] ''UDN'' [] [] ''uuid:1''] []]
       [LF]"

definition sample_env :: env where
  "sample_env = \<lparr>http = Response (Some ''Srv/1.0'') (Some (document True sample_markup)), now = [], udp_ok = True\<rparr>"

definition sample_ssdp :: interactive_ssdp where
  "sample_ssdp = interactive_new ''http://10.0.0.1:8200/d.xml'' 20"

definition sample_info :: endpoint_info where
  "sample_info = \<lparr>info_device_type = ''urn:t'', info_udn = ''uuid:1'', info_server = ''Srv/1.0''\<rparr>"

lemma sample_markup_ok: "markup_ok sample_markup"
  and sample_description: "read_description (tree sample_markup) =
    Some \<lparr>device_of = \<lparr>device_type_of = ''urn:t'', udn_of = ''uuid:1''\<rparr>\<rparr>"
  and sample_server: "from_utf8_lossy ''Srv/1.0'' = ''Srv/1.0''"
  by code_simp+

lemma sample_fetch: "fetch_endpoint_info reference_xml sample_env = Inr sample_info" "udp_ok sample_env"
  by (simp_all add: fetch_endpoint_info_def sample_env_def sample_info_def sample_server sample_description
      from_str_document [OF reference_xml_ok sample_markup_ok])

text \<open>A send puts exactly one packet on the wire when the description was fetched and the
  socket took it, and nothing otherwise; it reports success exactly when a packet was sent.\<close>

lemma send_alive_all_or_nothing:
  "snd (send_alive x s e dest) =
    (case fetch_endpoint_info x e of
       Inl _ \<Rightarrow> []
     | Inr info \<Rightarrow> if udp_ok e then [(to_string (now e) (build_alive s info), dest)] else []) \<and>
   (fst (send_alive x s e dest) = Inr () \<longleftrightarrow> snd (send_alive x s e dest) \<noteq> [])"
  using alive.sends alive.ok_iff_sent by blast

text \<open>What a description says: one device, with one type and one unique name.\<close>

definition described :: "xml \<Rightarrow> bytes \<Rightarrow> bytes \<Rightarrow> bool" where
  "described x t u \<longleftrightarrow>
     (\<exists>d. filter (\<lambda>c. tag c = ''device'') (children x) = [d] \<and>
        filter (\<lambda>c. tag c = ''deviceType'') (children d) = [Xml ''deviceType'' t []] \<and>
        filter (\<lambda>c. tag c = ''UDN'') (children d) = [Xml ''UDN'' u []])"

lemma struct_field_iff: "struct_field n x = Some c \<longleftrightarrow> filter (\<lambda>c. tag c = n) (children x) = [c]"
  by (auto simp: struct_field_def split: list.splits)

lemma string_field_iff: "string_field n x = Some s \<longleftrightarrow> struct_field n x = Some (Xml n s [])"
proof (cases "struct_field n x")
  case (Some c)
  then have "c \<in> set (filter (\<lambda>c. tag c = n) (children x))" by (simp add: struct_field_iff)
  then have "tag c = n" by simp
  with Some show ?thesis
    by (cases c; cases "children c") (auto simp: string_field_def)
qed (simp add: string_field_def)

lemma described_alt:
  "described x t u \<longleftrightarrow> (\<exists>d. struct_field ''device'' x = Some d \<and>
     string_field ''deviceType'' d = Some t \<and> string_field ''UDN'' d = Some u)"
  unfolding described_def string_field_iff unfolding struct_field_iff ..

lemma read_description_iff:
  "read_description x = Some \<lparr>device_of = \<lparr>device_type_of = t, udn_of = u\<rparr>\<rparr> \<longleftrightarrow> described x t u"
  by (auto simp: read_description_def read_device_def described_alt split: option.splits)

lemma fetch_document:
  assumes "xml_ok parser" and "markup_ok m" and "http e = Response server (Some (document declaration m))"
    and "described (tree m) t u"
  shows "fetch_endpoint_info parser e = Inr \<lparr>info_device_type = t, info_udn = u,
    info_server = (case server of Some hv \<Rightarrow> from_utf8_lossy hv | None \<Rightarrow> ''DLNAProxy/1.0'')\<rparr>"
  using assms(3,4)
  by (auto simp: fetch_endpoint_info_def from_str_document [OF assms(1,2)] read_description_iff [symmetric])

subsection \<open>Property\<close>

text \<open>C9. The announcement carries what the description document says: whatever its layout, its attributes and
  its other elements, a document of the modelled markup (elements with text or elements in them; no
  comments, references, self-closing elements or prefixed names) with one device of one type and one
  unique name is announced with these and the name of the server that sent it, and any other document
  of this markup is refused and nothing is sent.\<close>

theorem description_announced:
  assumes "xml_ok parser" and "markup_ok m" and "http e = Response server (Some (document declaration m))"
    and "udp_ok e"
  shows "(\<forall>t u. described (tree m) t u \<longrightarrow>
      snd (send_alive parser s e dest) =
        [(to_string (now e) (Alive (remote_desc_url s)
            (case server of Some hv \<Rightarrow> from_utf8_lossy hv | None \<Rightarrow> ''DLNAProxy/1.0'') u t (max_age_of s)), dest)]) \<and>
    ((\<forall>t u. \<not> described (tree m) t u) \<longrightarrow>
      send_alive parser s e dest = (Inl (Context ''Failed to parse device's XML description.''), []))"
proof -
  have refused: "read_description (tree m) = None" if "\<forall>t u. \<not> described (tree m) t u"
  proof (cases "read_description (tree m)")
    case (Some d)
    then show ?thesis
      using that read_description_iff [of "tree m" "device_type_of (device_of d)" "udn_of (device_of d)"] by simp
  qed
  show ?thesis
    using assms(3,4) refused fetch_document [OF assms(1,2,3)]
    by (auto simp: send_alive_def send_to_def) (simp add: fetch_endpoint_info_def from_str_document [OF assms(1,2)])
qed

theorem description_announced_witness:
  "snd (send_alive reference_xml sample_ssdp sample_env client) =
     [(to_string [] (Alive ''http://10.0.0.1:8200/d.xml'' ''Srv/1.0'' ''uuid:1'' ''urn:t'' 20), client)]"
proof -
  have "described (tree sample_markup) ''urn:t'' ''uuid:1''"
    using sample_description by (simp add: read_description_iff)
  with description_announced [OF reference_xml_ok sample_markup_ok, of sample_env "Some ''Srv/1.0''" True sample_ssdp client]
  show ?thesis
    by (simp add: sample_env_def sample_server) (simp add: sample_ssdp_def interactive_new_def)
qed

end
