(* ===== verification/Request.thy ===== *)
theory Request
  imports RustStr
begin

section \<open>HTTP requests on the wire\<close>

text \<open>
  The HTTP parser (\<^verbatim>\<open>httparse\<close>) is not part of the repository: it is a parameter of the listener,
  and \<open>httparse_ok\<close> states what its documentation promises. \<open>http_request\<close> prints a request
  (RFC 9112); \<open>reference_httparse\<close> is a small parser that meets the contract, for the instances.
\<close>

subsection \<open>Requests\<close>

text \<open>What \<^verbatim>\<open>Request::parse\<close> leaves behind: the method, if it saw one, and the sixteen header slots the
  code allots, the unused ones empty; \<open>None\<close> is an error.\<close>

record request =
  method_of :: "bytes option"
  slots :: "(bytes \<times> bytes) list"

type_synonym httparse = "bytes \<Rightarrow> request option"

abbreviation empty_slots :: "nat \<Rightarrow> (bytes \<times> bytes) list" where
  "empty_slots n \<equiv> replicate n ([], [])"

abbreviation filled :: "bytes \<times> bytes \<Rightarrow> bool" where
  "filled slot \<equiv> fst slot \<noteq> []"

text \<open>A header field: its name, the white space after the colon, its value.\<close>

type_synonym header_field = "bytes \<times> bytes \<times> bytes"

definition token_byte :: "byte \<Rightarrow> bool" where
  "token_byte b \<longleftrightarrow> alphanumeric b \<or> b \<in> set ''!#$%&*+-.^_|~''"

definition target_byte :: "byte \<Rightarrow> bool" where
  "target_byte b \<longleftrightarrow> alphanumeric b \<or> b \<in> set ''*/:.-_~?&=%''"

definition space_byte :: "byte \<Rightarrow> bool" where
  "space_byte b \<longleftrightarrow> code b = 9 \<or> code b = 32"

definition field_byte :: "byte \<Rightarrow> bool" where
  "field_byte b \<longleftrightarrow> code b = 9 \<or> 32 \<le> code b \<and> code b \<noteq> 127"

definition trim_spaces :: "bytes \<Rightarrow> bytes" where
  "trim_spaces s = rev (dropWhile space_byte (rev (dropWhile space_byte s)))"

definition token :: "bytes \<Rightarrow> bool" where
  "token s \<longleftrightarrow> s \<noteq> [] \<and> list_all token_byte s"

definition target :: "bytes \<Rightarrow> bool" where
  "target s \<longleftrightarrow> s \<noteq> [] \<and> list_all target_byte s"

definition field_ok :: "header_field \<Rightarrow> bool" where
  "field_ok f \<longleftrightarrow>
     (case f of (name, gap, value) \<Rightarrow>
        token name \<and> list_all space_byte gap \<and> list_all field_byte value \<and> trim_spaces value = value)"

definition request_ok :: "bytes \<Rightarrow> bytes \<Rightarrow> header_field list \<Rightarrow> bool" where
  "request_ok m t fs \<longleftrightarrow> token m \<and> target t \<and> list_all field_ok fs"

definition field_line :: "header_field \<Rightarrow> bytes" where
  "field_line f = (case f of (name, gap, value) \<Rightarrow> name @ '':'' @ gap @ value @ CRLF)"

definition http_request :: "bytes \<Rightarrow> bytes \<Rightarrow> header_field list \<Rightarrow> bytes" where
  "http_request m t fs =
     m @ '' '' @ t @ '' HTTP/1.1'' @ CRLF @ concat (map field_line fs) @ CRLF"

definition slot_of :: "header_field \<Rightarrow> bytes \<times> bytes" where
  "slot_of f = (case f of (name, gap, value) \<Rightarrow> (name, value))"

subsection \<open>The contract of the parser\<close>

text \<open>
  Of what it does not refuse: sixteen slots, each filled one from a line of its own, and a method that
  is the token before the first space, after any empty lines. It reads a complete request whatever
  follows it, and refuses one with more headers than slots.
\<close>

definition httparse_ok :: "httparse \<Rightarrow> bool" where
  "httparse_ok httparse \<longleftrightarrow>
     (\<forall>b r. httparse b = Some r \<longrightarrow>
        length (slots r) = 16 \<and> length (filter filled (slots r)) \<le> count_list b LF \<and>
        (\<forall>m. method_of r = Some m \<longrightarrow>
           (\<exists>skip rest. b = skip @ m @ CHR '' '' # rest \<and> set skip \<subseteq> {CR, LF} \<and>
              CHR '' '' \<notin> set m \<and> m \<noteq> []))) \<and>
     (\<forall>m t fs rest. request_ok m t fs \<longrightarrow>
        httparse (http_request m t fs @ rest) =
          (if length fs \<le> 16
           then Some \<lparr>method_of = Some m, slots = map slot_of fs @ empty_slots (16 - length fs)\<rparr>
           else None))"

lemma httparse_slots:
  assumes "httparse_ok httparse" and "httparse b = Some r"
  shows "length (slots r) = 16" and "length (filter filled (slots r)) \<le> count_list b LF"
  using assms by (auto simp: httparse_ok_def)

lemma httparse_method:
  assumes "httparse_ok httparse" and "httparse (x # b) = Some r" and "method_of r = Some m"
    and "x \<noteq> CR" and "x \<noteq> LF"
  shows "m = takeWhile (\<lambda>b. b \<noteq> CHR '' '') (x # b)"
proof -
  from assms(1-3) obtain skip rest where s: "x # b = skip @ m @ CHR '' '' # rest"
    "set skip \<subseteq> {CR, LF}" "CHR '' '' \<notin> set m" "m \<noteq> []"
    unfolding httparse_ok_def by blast
  have "skip = []" using s(1,2) assms(4,5) by (cases skip) auto
  with s show ?thesis by simp
qed

lemma httparse_request:
  assumes "httparse_ok httparse" and "request_ok m t fs"
  shows "length fs \<le> 16 \<Longrightarrow> httparse (http_request m t fs @ rest) =
      Some \<lparr>method_of = Some m, slots = map slot_of fs @ empty_slots (16 - length fs)\<rparr>"
    and "16 < length fs \<Longrightarrow> httparse (http_request m t fs @ rest) = None"
  using assms unfolding httparse_ok_def by (auto simp del: append_assoc)

subsection \<open>A parser that meets the contract\<close>

lemma starts_with_CRLF: "starts_with s CRLF \<Longrightarrow> s = CR # LF # drop 2 s"
  by (auto simp: starts_with_prefix prefix_def)

lemma rest_shorter:
  assumes "starts_with (dropWhile P (tl (dropWhile Q b))) CRLF"
  shows "length (dropWhile P (tl (dropWhile Q b))) - 2 < length b"
proof -
  have "length (dropWhile P (tl (dropWhile Q b))) \<le> length b"
    by (metis diff_le_self le_trans length_dropWhile_le length_tl)
  moreover have "0 < length (dropWhile P (tl (dropWhile Q b)))"
    using starts_with_CRLF [OF assms] by (metis length_greater_0_conv list.distinct(1))
  ultimately show ?thesis by linarith
qed

function parse_fields :: "bytes \<Rightarrow> (bytes \<times> bytes) list option" where
  "parse_fields b =
     (if starts_with b CRLF then Some []
      else let name = takeWhile token_byte b; value = takeWhile field_byte (tl (dropWhile token_byte b));
               rest = dropWhile field_byte (tl (dropWhile token_byte b))
           in if name \<noteq> [] \<and> starts_with (dropWhile token_byte b) '':'' \<and> starts_with rest CRLF
              then map_option (Cons (name, trim_spaces value)) (parse_fields (drop 2 rest))
              else None)"
  by auto
termination
  by (relation "measure length") (auto dest: rest_shorter)

declare parse_fields.simps [simp del]

definition reference_httparse :: httparse where
  "reference_httparse b =
     (let m = takeWhile token_byte b; b1 = dropWhile token_byte b;
          t = takeWhile target_byte (tl b1); b2 = dropWhile target_byte (tl b1)
      in if m \<noteq> [] \<and> starts_with b1 '' '' \<and> t \<noteq> [] \<and> starts_with b2 ('' HTTP/1.1'' @ CRLF)
         then (case parse_fields (drop 11 b2) of
                 None \<Rightarrow> None
               | Some fs \<Rightarrow>
                   if length fs \<le> 16
                   then Some \<lparr>method_of = Some m, slots = fs @ empty_slots (16 - length fs)\<rparr>
                   else None)
         else None)"

lemma token_stop [simp]:
  "\<not> token_byte (CHR '' '')" "\<not> token_byte (CHR '':'')" "\<not> target_byte (CHR '' '')" "\<not> field_byte CR"
  "space_byte b \<Longrightarrow> field_byte b" "\<not> token_byte CR" "\<not> token_byte LF" "\<not> field_byte LF"
  by (auto simp: token_byte_def target_byte_def field_byte_def space_byte_def alphanumeric_def code_def)

lemma field_line_unfold: "field_line (name, gap, value) @ s = name @ CHR '':'' # (gap @ value) @ CR # LF # s"
  by (simp add: field_line_def)

lemma trim_gap: "list_all space_byte gap \<Longrightarrow> trim_spaces (gap @ value) = trim_spaces value"
  by (simp add: trim_spaces_def list_all_iff)

lemma parse_fields_line:
  assumes "field_ok f"
  shows "parse_fields (field_line f @ s) = map_option (Cons (slot_of f)) (parse_fields s)"
proof -
  obtain name gap v where f: "f = (name, gap, v)" by (cases f)
  from assms have ok: "token name" "list_all space_byte gap" "list_all field_byte v" "trim_spaces v = v"
    by (simp_all add: field_ok_def f)
  have field: "list_all field_byte (gap @ v)"
    using ok(2,3) by (auto simp: list_all_iff)
  have "hd name \<noteq> CR" "name \<noteq> []" using ok(1) token_stop(6) by (cases name; auto simp: token_def)+
  then have "\<not> starts_with (field_line f @ s) CRLF"
    unfolding f field_line_unfold by (cases name) (simp_all add: starts_with_def)
  with ok(1) \<open>name \<noteq> []\<close> trim_gap [OF ok(2)] ok(4) show ?thesis
    unfolding f field_line_unfold
    by (subst parse_fields.simps)
       (simp add: span_first [where P = token_byte and y = "CHR '':''"]
         span_first [where P = field_byte and y = CR, OF field] token_def
         starts_with_def slot_of_def Let_def del: append_assoc)
qed

lemma parse_fields_lines:
  "list_all field_ok fs \<Longrightarrow> parse_fields (concat (map field_line fs) @ CRLF @ rest) = Some (map slot_of fs)"
proof (induction fs)
  case Nil
  show ?case by (subst parse_fields.simps) (simp add: starts_with_def)
next
  case (Cons f fs)
  then show ?case using parse_fields_line [of f "concat (map field_line fs) @ CRLF @ rest"] by simp
qed

lemma parse_fields_step:
  assumes "parse_fields b = Some fs" and "\<not> starts_with b CRLF"
  obtains gs where "parse_fields (drop 2 (dropWhile field_byte (tl (dropWhile token_byte b)))) = Some gs"
    and "length fs = Suc (length gs)" and "takeWhile token_byte b \<noteq> []"
    and "starts_with (dropWhile token_byte b) '':''"
    and "starts_with (dropWhile field_byte (tl (dropWhile token_byte b))) CRLF"
  using assms by (subst (asm) parse_fields.simps) (auto simp: Let_def simp del: takeWhile_eq_Nil_iff split: if_split_asm)

lemma parse_fields_count: "parse_fields b = Some fs \<Longrightarrow> length fs \<le> count_list b LF"
proof (induction b arbitrary: fs rule: parse_fields.induct)
  case (1 b)
  let ?rest = "dropWhile field_byte (tl (dropWhile token_byte b))"
  show ?case
  proof (cases "starts_with b CRLF")
    case True
    with 1(2) show ?thesis by (subst (asm) parse_fields.simps) simp
  next
    case False
    from parse_fields_step [OF 1(2) False] obtain gs where
      gs: "parse_fields (drop 2 ?rest) = Some gs" "length fs = Suc (length gs)"
      and line: "takeWhile token_byte b \<noteq> []" "starts_with (dropWhile token_byte b) '':''" "starts_with ?rest CRLF" .
    from 1(1) [OF False refl refl refl _ gs(1)] line have "length gs \<le> count_list (drop 2 ?rest) LF" by blast
    moreover have "count_list ?rest LF = Suc (count_list (drop 2 ?rest) LF)"
      by (subst starts_with_CRLF [OF line(3)]) simp
    moreover have "count_list ?rest LF \<le> count_list b LF"
      by (meson count_list_dropWhile count_list_tl le_trans)
    ultimately show ?thesis using gs(2) by linarith
  qed
qed

lemma parse_fields_slots:
  "parse_fields b = Some fs \<Longrightarrow> list_all filled fs"
proof (induction b arbitrary: fs rule: parse_fields.induct)
  case (1 b)
  then show ?case
    by (subst (asm) (2) parse_fields.simps) (auto simp: Let_def split: if_split_asm)
qed

lemma target_stop: "list_all target_byte t \<Longrightarrow> takeWhile target_byte (t @ CHR '' '' # s) = t"
  "list_all target_byte t \<Longrightarrow> dropWhile target_byte (t @ CHR '' '' # s) = CHR '' '' # s"
  by (simp_all add: span_first [where P = target_byte and y = "CHR '' ''"])

lemma method_stop: "list_all token_byte m \<Longrightarrow> takeWhile token_byte (m @ CHR '' '' # s) = m"
  "list_all token_byte m \<Longrightarrow> dropWhile token_byte (m @ CHR '' '' # s) = CHR '' '' # s"
  by (simp_all add: span_first [where P = token_byte and y = "CHR '' ''"])

lemma reference_request:
  assumes "request_ok m t fs"
  shows "reference_httparse (http_request m t fs @ rest) =
    (if length fs \<le> 16
     then Some \<lparr>method_of = Some m, slots = map slot_of fs @ empty_slots (16 - length fs)\<rparr> else None)"
proof -
  have "drop 11 ('' HTTP/1.1'' @ CRLF @ s) = s" for s by simp
  with assms parse_fields_lines [of fs rest] show ?thesis
    by (auto simp: reference_httparse_def http_request_def request_ok_def token_def target_def
        target_stop method_stop starts_with_def Let_def)
qed

lemma reference_accepted:
  assumes "reference_httparse b = Some r"
  shows "length (slots r) = 16 \<and> length (filter filled (slots r)) \<le> count_list b LF \<and>
    (\<exists>m rest. method_of r = Some m \<and> b = m @ CHR '' '' # rest \<and> CHR '' '' \<notin> set m \<and> m \<noteq> [])"
proof -
  let ?b1 = "dropWhile token_byte b"
  let ?body = "drop 11 (dropWhile target_byte (tl ?b1))"
  from assms obtain fs where fs: "parse_fields ?body = Some fs" "length fs \<le> 16"
    and r: "r = \<lparr>method_of = Some (takeWhile token_byte b), slots = fs @ empty_slots (16 - length fs)\<rparr>"
    and m: "takeWhile token_byte b \<noteq> []" "starts_with ?b1 '' ''"
    by (auto simp: reference_httparse_def Let_def simp del: takeWhile_eq_Nil_iff
        split: if_split_asm option.splits)
  have "count_list ?body LF \<le> count_list b LF"
    by (metis append_take_drop_id count_list_append count_list_dropWhile count_list_tl le_add2 le_trans)
  with parse_fields_count [OF fs(1)] have "length fs \<le> count_list b LF" by linarith
  moreover have "b = takeWhile token_byte b @ CHR '' '' # tl ?b1"
    using m(2) takeWhile_dropWhile_id [of token_byte b] by (cases ?b1) (auto simp: starts_with_def)
  moreover have "CHR '' '' \<notin> set (takeWhile token_byte b)"
    using token_stop(1) by (blast dest: set_takeWhileD)
  moreover have "filter filled (slots r) = fs"
    using parse_fields_slots [OF fs(1)] by (simp add: r list_all_iff)
  ultimately show ?thesis using fs(2) m(1) by (simp add: r) blast
qed

lemma reference_httparse_ok: "httparse_ok reference_httparse"
proof -
  have "length (slots r) = 16 \<and> length (filter filled (slots r)) \<le> count_list b LF \<and>
      (\<forall>m. method_of r = Some m \<longrightarrow> (\<exists>skip rest. b = skip @ m @ CHR '' '' # rest \<and>
        set skip \<subseteq> {CR, LF} \<and> CHR '' '' \<notin> set m \<and> m \<noteq> []))"
    if r: "reference_httparse b = Some r" for b r
  proof -
    from reference_accepted [OF r] obtain m rest where
      "length (slots r) = 16" "length (filter filled (slots r)) \<le> count_list b LF" "method_of r = Some m"
      "b = [] @ m @ CHR '' '' # rest" "CHR '' '' \<notin> set m" "m \<noteq> []" by auto
    then show ?thesis by (metis empty_set empty_subsetI option.inject)
  qed
  then have accepted: "\<forall>b r. reference_httparse b = Some r \<longrightarrow>
      length (slots r) = 16 \<and> length (filter filled (slots r)) \<le> count_list b LF \<and>
      (\<forall>m. method_of r = Some m \<longrightarrow> (\<exists>skip rest. b = skip @ m @ CHR '' '' # rest \<and>
        set skip \<subseteq> {CR, LF} \<and> CHR '' '' \<notin> set m \<and> m \<noteq> []))" by blast
  show ?thesis
    unfolding httparse_ok_def
    by (intro conjI accepted) (simp add: reference_request del: append_assoc)
qed

end
