(* ===== verification/Listener.thy ===== *)
theory Listener
  imports Interactive Request
begin

section \<open>The M-SEARCH listener (ssdp/listener.rs)\<close>

text \<open>
  \<open>parse_ssdp\<close> and the loop of \<open>listen_task\<close>, with the HTTP parser as a parameter (theory \<open>Request\<close>). The
  properties are about what is on the wire.
\<close>

subsection \<open>The code\<close>

datatype parse_outcome =
    Parsed bytes "bytes \<Rightarrow> bytes option"
  | ParseError
  | NoSSDPMethod
  | IndexPanic

text \<open>The loop over the slots up to the first empty name; running past the last slot is an index
  out of bounds.\<close>

fun collect_headers :: "(bytes \<times> bytes) list \<Rightarrow> (bytes \<Rightarrow> bytes option) \<Rightarrow> (bytes \<Rightarrow> bytes option) option" where
  "collect_headers [] header_map = None"
| "collect_headers ((name, value) # rest) header_map =
     (if name = [] then Some header_map
      else collect_headers rest (header_map(to_uppercase name \<mapsto> from_utf8_lossy value)))"

definition parse_ssdp :: "httparse \<Rightarrow> bytes \<Rightarrow> parse_outcome" where
  "parse_ssdp httparse buffer =
     (case httparse buffer of
        None \<Rightarrow> ParseError
      | Some req \<Rightarrow>
          (case method_of req of
             None \<Rightarrow> NoSSDPMethod
           | Some m \<Rightarrow>
               (case collect_headers (slots req) Map.empty of
                  None \<Rightarrow> IndexPanic
                | Some headers \<Rightarrow> Parsed m headers)))"

definition should_respond :: "bytes \<Rightarrow> (bytes \<Rightarrow> bytes option) \<Rightarrow> bool" where
  "should_respond ssdp_method ssdp_headers =
     (case ssdp_headers ''ST'' of
        None \<Rightarrow> False
      | Some header \<Rightarrow>
          ssdp_method = ''M-SEARCH'' \<and>
          (header = ''urn:schemas-upnp-org:device:MediaServer:1'' \<or>
           header = ''ssdp:all'' \<or> header = ''upnp:rootdevice''))"

datatype recv =
    RecvError
  | Received bytes socket_addr

text \<open>\<^verbatim>\<open>recv_from\<close> into the zeroed buffer of 1024 bytes; a longer datagram is cut. The code parses
  the whole buffer.\<close>

definition recv_buffer :: "bytes \<Rightarrow> bytes" where
  "recv_buffer dgram = take 1024 dgram @ replicate (1024 - length dgram) (CHR 0x00)"

text \<open>One round of the loop: the datagrams it sends, or \<open>None\<close> when it panics.\<close>

definition listen_round ::
    "httparse \<Rightarrow> xml_parser \<Rightarrow> interactive_ssdp \<Rightarrow> recv \<Rightarrow> env \<Rightarrow> datagram list option" where
  "listen_round httparse parser ssdp_helper r e =
     (case r of
        RecvError \<Rightarrow> Some []
      | Received dgram src_addr \<Rightarrow>
          (case parse_ssdp httparse (recv_buffer dgram) of
             IndexPanic \<Rightarrow> None
           | ParseError \<Rightarrow> Some []
           | NoSSDPMethod \<Rightarrow> Some []
           | Parsed ssdp_method ssdp_headers \<Rightarrow>
               if should_respond ssdp_method ssdp_headers
               then Some (snd (send_ok parser ssdp_helper e src_addr))
               else Some []))"

text \<open>The task over the datagrams that arrive: what it sends for each round it reaches, and whether
  it is still running.\<close>

fun listen_task ::
    "httparse \<Rightarrow> xml_parser \<Rightarrow> interactive_ssdp \<Rightarrow> (recv \<times> env) list \<Rightarrow>
     datagram list list \<times> bool" where
  "listen_task httparse parser ssdp_helper [] = ([], True)"
| "listen_task httparse parser ssdp_helper ((r, e) # rest) =
     (case listen_round httparse parser ssdp_helper r e of
        None \<Rightarrow> ([], False)
      | Some ds \<Rightarrow>
          (case listen_task httparse parser ssdp_helper rest of (out, running) \<Rightarrow>
             (ds # out, running)))"

subsection \<open>Header collection\<close>

lemma collect_headers_filled:
  "\<forall>h \<in> set hs. fst h \<noteq> [] \<Longrightarrow>
   collect_headers (hs @ rest) m =
     collect_headers rest (m ++ map_of (rev (map (\<lambda>(n, v). (to_uppercase n, from_utf8_lossy v)) hs)))"
  by (induction hs arbitrary: m) (auto simp: map_add_upd_left)

lemma collect_headers_empty: "n > 0 \<Longrightarrow> collect_headers (replicate n ([], [])) m = Some m"
  by (cases n) simp_all

lemma collect_headers_panics: "collect_headers hs m = None \<Longrightarrow> list_all filled hs"
  by (induction hs m rule: collect_headers.induct) (auto split: if_splits)

text \<open>The headers of a request as the listener looks them up: by upper-case name, the last value.\<close>

definition request_headers :: "header_field list \<Rightarrow> bytes \<Rightarrow> bytes option" where
  "request_headers fs = map_of (rev (map (\<lambda>(name, gap, v). (to_uppercase name, from_utf8_lossy v)) fs))"

lemma parse_ssdp_request:
  assumes "httparse_ok httparse" and "request_ok m t fs"
  shows "parse_ssdp httparse (http_request m t fs @ rest) =
    (if length fs < 16 then Parsed m (request_headers fs) else if length fs = 16 then IndexPanic else ParseError)"
proof -
  have "\<forall>h \<in> set (map slot_of fs). filled h"
    using assms(2) by (auto simp: request_ok_def list_all_iff field_ok_def token_def slot_of_def)
  note collect = collect_headers_filled [OF this, of _ Map.empty]
  have "map (\<lambda>(n, v). (to_uppercase n, from_utf8_lossy v)) (map slot_of fs) =
      map (\<lambda>(name, gap, v). (to_uppercase name, from_utf8_lossy v)) fs"
    by (auto simp: slot_of_def)
  then have headers: "map_of (rev (map (\<lambda>(n, v). (to_uppercase n, from_utf8_lossy v)) (map slot_of fs))) =
      request_headers fs" by (simp only: request_headers_def)
  show ?thesis
    using httparse_request [OF assms, of rest] collect [of "empty_slots (16 - length fs)"]
      collect_headers_empty [of "16 - length fs"] collect [of "[]"]
    unfolding headers
    by (auto simp: parse_ssdp_def)
qed

lemma recv_whole: "length dgram \<le> 1024 \<Longrightarrow> recv_buffer dgram = dgram @ replicate (1024 - length dgram) (CHR 0x00)"
  by (simp add: recv_buffer_def)

text \<open>A buffer of few lines cannot fill the slots.\<close>

lemma few_lines_no_panic:
  assumes "httparse_ok httparse" and "count_list b LF < 16"
  shows "parse_ssdp httparse b \<noteq> IndexPanic"
proof
  assume "parse_ssdp httparse b = IndexPanic"
  then obtain r where r: "httparse b = Some r" "list_all filled (slots r)"
    by (auto simp: parse_ssdp_def split: option.splits dest: collect_headers_panics)
  then have "length (filter filled (slots r)) = 16"
    using httparse_slots(1) [OF assms(1)] by (simp add: list_all_iff)
  with httparse_slots(2) [OF assms(1) r(1)] assms(2) show False by linarith
qed

lemma count_recv_buffer: "count_list (recv_buffer dgram) LF \<le> count_list dgram LF"
proof -
  have "count_list (take 1024 dgram) LF \<le> count_list dgram LF"
    by (metis append_take_drop_id count_list_append le_add1)
  then show ?thesis by (simp add: recv_buffer_def count_list_0_iff)
qed

lemma should_respond_method: "should_respond m h \<Longrightarrow> m = ''M-SEARCH''"
  by (simp add: should_respond_def split: option.splits)

subsection \<open>Properties\<close>

text \<open>C10. What the listener does with any complete request that fits its buffer, its header names in
  any letter case: a search for the media server, for everything or for root devices with fewer
  than sixteen headers is answered, by one \<^verbatim>\<open>ssdp:ok\<close> to its sender when the description can be
  fetched and the socket takes it; sixteen headers are a panic; everything else is ignored.\<close>

theorem requests_answered:
  assumes "httparse_ok httparse" and "request_ok m t fs" and "length (http_request m t fs) \<le> 1024"
  shows "listen_round httparse x s (Received (http_request m t fs) src) e =
    (if length fs = 16 then None
     else if length fs < 16 \<and> m = ''M-SEARCH'' \<and>
       request_headers fs ''ST'' \<in>
         Some ` {''urn:schemas-upnp-org:device:MediaServer:1'', ''ssdp:all'', ''upnp:rootdevice''}
     then Some (case fetch_endpoint_info x e of
         Inl _ \<Rightarrow> []
       | Inr info \<Rightarrow> if udp_ok e then [(to_string (now e) (build_ok s info), src)] else [])
     else Some [])"
  using parse_ssdp_request [OF assms(1,2)]
  by (auto simp: listen_round_def recv_whole [OF assms(3)] okay.sends should_respond_def split: option.splits)

definition sample_search :: "header_field list" where
  "sample_search = [(''Host'', '' '', ''239.255.255.250:1900''), (''Man'', [], [CHR 0x22] @ ''ssdp:discover'' @ [CHR 0x22]),
     (''st'', '' '', ''ssdp:all'')]"

lemma sample_search_ok:
  "request_ok ''M-SEARCH'' ''*'' sample_search" "length (http_request ''M-SEARCH'' ''*'' sample_search) \<le> 1024"
  "request_headers sample_search ''ST'' = Some ''ssdp:all''"
  by code_simp+

theorem requests_answered_witness:
  "listen_round reference_httparse reference_xml sample_ssdp
     (Received (http_request ''M-SEARCH'' ''*'' sample_search) client) sample_env =
   Some [(to_string [] (build_ok sample_ssdp sample_info), client)]"
proof -
  have "length sample_search = 3" by (simp add: sample_search_def)
  with sample_search_ok(3) sample_fetch requests_answered [OF reference_httparse_ok sample_search_ok(1,2)] show ?thesis
    by (simp add: sample_env_def)
qed

text \<open>C16. The listener never answers a packet the program itself sends, so its own announcements,
  which come back on the multicast group, cannot start a loop; and none of them stops it, as long as
  the packet has fewer than sixteen lines.\<close>

theorem no_answer_to_own_packets:
  assumes "httparse_ok httparse"
  shows "listen_round httparse x s (Received (to_string date p) src) e =
    (if parse_ssdp httparse (recv_buffer (to_string date p)) = IndexPanic then None else Some []) \<and>
    (count_list (to_string date p) LF < 16 \<longrightarrow>
       listen_round httparse x s (Received (to_string date p) src) e = Some [])"
proof -
  obtain c rest where c: "recv_buffer (to_string date p) = c # rest" "c \<noteq> CR" "c \<noteq> LF"
    "takeWhile (\<lambda>b. b \<noteq> CHR '' '') (c # rest) \<in> {''NOTIFY'', ''HTTP/1.1''}"
    by (cases p) (simp_all add: recv_buffer_def)
  have "listen_round httparse x s (Received (to_string date p) src) e =
    (if parse_ssdp httparse (recv_buffer (to_string date p)) = IndexPanic then None else Some [])"
  proof (cases "parse_ssdp httparse (recv_buffer (to_string date p))")
    case (Parsed m h)
    then obtain r where "httparse (c # rest) = Some r" "method_of r = Some m"
      by (auto simp: parse_ssdp_def c(1) split: option.splits)
    with httparse_method [OF assms _ _ c(2,3)] c(4) have "m \<noteq> ''M-SEARCH''" by fastforce
    with Parsed show ?thesis
      by (auto simp: listen_round_def dest: should_respond_method)
  qed (simp_all add: listen_round_def)
  with few_lines_no_panic [OF assms] count_recv_buffer [of "to_string date p"] show ?thesis
    by (metis le_less_trans)
qed

theorem no_answer_to_own_packets_witness:
  "listen_round reference_httparse reference_xml sample_ssdp
     (Received (to_string [] (build_byebye sample_ssdp sample_info)) client) sample_env = Some []"
proof -
  have "count_list (to_string [] (build_byebye sample_ssdp sample_info)) LF < 16"
    by (simp add: build_byebye_def sample_info_def)
  with no_answer_to_own_packets [OF reference_httparse_ok] show ?thesis by blast
qed

text \<open>Every datagram received makes the listener send at most one datagram, an \<^verbatim>\<open>ssdp:ok\<close> built
  from the description it has just fetched, and only to the sender.\<close>

lemma replies_only_to_sender:
  assumes "listen_round httparse x s r e = Some ds" and "(b, dest) \<in> set ds"
  shows "length ds = 1 \<and> (\<exists>dgram info. r = Received dgram dest \<and>
    fetch_endpoint_info x e = Inr info \<and> b = to_string (now e) (build_ok s info))"
proof -
  from assms obtain dgram src where r: "r = Received dgram src" and ds: "ds = snd (send_ok x s e src)"
    by (auto simp: listen_round_def split: recv.splits parse_outcome.splits if_splits)
  from assms(2) have "ds \<noteq> []" by auto
  with okay.at_most_one [of x s e src] ds have "length ds = 1"
    by (simp add: le_Suc_eq)
  with okay.only_to_dest [of b dest x s e src] assms(2) ds r show ?thesis by blast
qed

text \<open>A request with sixteen headers makes the listener index past its slots: the task panics,
  whatever the request is, and nothing that arrives afterwards is answered.\<close>

lemma requests_panic:
  assumes "httparse_ok httparse" and "request_ok m t fs" and "length fs = 16"
    and "length (http_request m t fs) \<le> 1024"
  shows "listen_round httparse x s (Received (http_request m t fs) src) e = None"
  using parse_ssdp_request [OF assms(1,2)] assms(3)
  by (simp add: listen_round_def recv_whole [OF assms(4)])

lemma sixteen_headers_stop_listener:
  assumes "httparse_ok httparse" and "request_ok m t fs" and "length fs = 16"
    and "length (http_request m t fs) \<le> 1024"
  shows "listen_task httparse x s ((Received (http_request m t fs) src, e) # later) = ([], False)"
  by (simp add: requests_panic [OF assms])

text \<open>C33. The listener survives everything else: errors, datagrams of fewer than sixteen lines, whatever they
  hold, and complete requests with any other number of headers only cost their own round, as long as the
  fetches of the descriptions complete, in success or in failure.\<close>

theorem listener_survives:
  assumes "httparse_ok httparse"
    and "\<And>dgram src e. (Received dgram src, e) \<in> set events \<Longrightarrow>
      count_list dgram LF < 16 \<or>
      (\<exists>m t fs. dgram = http_request m t fs \<and> request_ok m t fs \<and> length dgram \<le> 1024 \<and> length fs \<noteq> 16)"
  shows "snd (listen_task httparse x s events) \<and>
    length (fst (listen_task httparse x s events)) = length events"
proof -
  have r: "listen_round httparse x s r e \<noteq> None" if "(r, e) \<in> set events" for r e
  proof (cases r)
    case (Received dgram src)
    have "parse_ssdp httparse (recv_buffer dgram) \<noteq> IndexPanic"
      using assms(2) [of dgram src e] that Received few_lines_no_panic [OF assms(1), of "recv_buffer dgram"]
        count_recv_buffer [of dgram] parse_ssdp_request [OF assms(1)]
      by (auto simp: recv_whole split: if_splits)
    with Received show ?thesis
      by (simp add: listen_round_def split: parse_outcome.split)
  qed (simp add: listen_round_def)
  then show ?thesis
    by (induction events) (auto split: option.splits prod.splits)
qed

theorem listener_survives_witness:
  "snd (listen_task reference_httparse reference_xml sample_ssdp
     [(RecvError, sample_env), (Received ''NOTIFY * HTTP/1.1'' client, sample_env),
      (Received (http_request ''M-SEARCH'' ''*'' sample_search) client, sample_env)])"
proof (rule conjunct1 [OF listener_survives [OF reference_httparse_ok]])
  have "length sample_search \<noteq> 16" by (simp add: sample_search_def)
  with sample_search_ok(1,2) show "(Received dgram src, e) \<in> set
      [(RecvError, sample_env), (Received ''NOTIFY * HTTP/1.1'' client, sample_env),
       (Received (http_request ''M-SEARCH'' ''*'' sample_search) client, sample_env)] \<Longrightarrow>
      count_list dgram LF < 16 \<or>
      (\<exists>m t fs. dgram = http_request m t fs \<and> request_ok m t fs \<and> length dgram \<le> 1024 \<and> length fs \<noteq> 16)"
    for dgram src e by auto
qed

end
