(* ===== verification/Broadcast.thy ===== *)
theory Broadcast
  imports Interactive
begin

section \<open>Periodic announcements and shutdown (ssdp/broadcast.rs)\<close>

text \<open>
  \<open>broadcast_task\<close> with the schedule of \<^verbatim>\<open>tokio::time::interval\<close> (the first tick is immediate, the
  k-th is due \<open>k\<close> periods after the task started, and missed ticks are made up at once), and
  \<open>shutdown_handler\<close>. Times and durations are in seconds; how long a round takes and what the
  network does in it are the environment of the round.
\<close>

subsection \<open>The code\<close>

definition SSDP_ADDRESS :: socket_addr where
  "SSDP_ADDRESS = SocketAddr (V4 239 255 255 250) 1900 0"

definition do_ssdp_alive ::
    "xml_parser \<Rightarrow> interactive_ssdp \<Rightarrow> env \<Rightarrow> (failure + unit) \<times> datagram list" where
  "do_ssdp_alive parser ssdp_helper e = send_alive parser ssdp_helper e SSDP_ADDRESS"

text \<open>The loop: one announcement, then the next tick. A round is its environment and the time it
  takes; the result is when each round started and what it sent.\<close>

fun broadcast_rounds ::
    "xml_parser \<Rightarrow> interactive_ssdp \<Rightarrow> nat \<Rightarrow> nat \<Rightarrow> nat \<Rightarrow> nat \<Rightarrow>
     (env \<times> nat) list \<Rightarrow> (nat \<times> datagram list) list" where
  "broadcast_rounds parser helper period start k time [] = []"
| "broadcast_rounds parser helper period start k time ((e, duration) # rest) =
     (time, snd (do_ssdp_alive parser helper e)) #
     broadcast_rounds parser helper period start (k + 1)
       (max (time + duration) (start + k * period)) rest"

text \<open>\<^verbatim>\<open>time::interval\<close> panics on a period of zero, before the first announcement.\<close>

definition broadcast_task ::
    "xml_parser \<Rightarrow> interactive_ssdp \<Rightarrow> nat \<Rightarrow> nat \<Rightarrow> (env \<times> nat) list \<Rightarrow>
     (nat \<times> datagram list) list option" where
  "broadcast_task parser helper period start rounds =
     (if period = 0 then None
      else Some (broadcast_rounds parser helper period start 0 start rounds))"

text \<open>What the wait for a signal sees first.\<close>

datatype signal_event =
    SigtermHandlerFailed
  | CtrlCFailed
  | CtrlC
  | SigtermReceived

definition wait_for_shutdown_signal :: "signal_event \<Rightarrow> bytes + bytes" where
  "wait_for_shutdown_signal ev =
     (case ev of
        SigtermHandlerFailed \<Rightarrow> Inl ''Failed to install SIGTERM handler''
      | CtrlCFailed \<Rightarrow> Inl ''Failed to wait for SIGINT''
      | CtrlC \<Rightarrow> Inr ''SIGINT''
      | SigtermReceived \<Rightarrow> Inr ''SIGTERM'')"

text \<open>The handler runs from one wait to the next, and the other tasks go on at each of them: until a
  signal comes, while the goodbye is on its way, for at most two seconds (\<open>None\<close>: the time ran out and
  nothing was sent), and before \<^verbatim>\<open>process::exit\<close> takes effect. When signals cannot be caught it waits for ever.\<close>

datatype shutdown_phase =
    Waiting
  | Disabled
  | Stopping
  | Leaving
  | Exited

datatype shutdown_event =
    Woken signal_event
  | Goodbye "env option"
  | Exit

fun shutdown_handler ::
    "xml_parser \<Rightarrow> interactive_ssdp \<Rightarrow> shutdown_phase \<Rightarrow> shutdown_event \<Rightarrow>
     (shutdown_phase \<times> datagram list) option" where
  "shutdown_handler parser helper Waiting (Woken ev) =
     (case wait_for_shutdown_signal ev of
        Inl _ \<Rightarrow> Some (Disabled, [])
      | Inr _ \<Rightarrow> Some (Stopping, []))"
| "shutdown_handler parser helper Stopping (Goodbye (Some e)) =
     Some (Leaving, snd (send_byebye parser helper e SSDP_ADDRESS))"
| "shutdown_handler parser helper Stopping (Goodbye None) = Some (Leaving, [])"
| "shutdown_handler parser helper Leaving Exit = Some (Exited, [])"
| "shutdown_handler parser helper _ _ = None"

subsection \<open>The schedule\<close>

lemma rounds_length [simp]:
  "length (broadcast_rounds x h p t0 k t rs) = length rs"
  by (induction x h p t0 k t rs rule: broadcast_rounds.induct) auto

lemma rounds_hd: "rs \<noteq> [] \<Longrightarrow> fst (broadcast_rounds x h p t0 k t rs ! 0) = t"
  by (cases rs) (auto simp: case_prod_unfold)

text \<open>Round \<open>k + 1\<close> starts when it is due or as soon as the round before it ends.\<close>

lemma rounds_next:
  "Suc i < length rs \<Longrightarrow>
   fst (broadcast_rounds x h p t0 k t rs ! Suc i) =
     max (fst (broadcast_rounds x h p t0 k t rs ! i) + snd (rs ! i)) (t0 + (k + i) * p)"
proof (induction x h p t0 k t rs arbitrary: i rule: broadcast_rounds.induct)
  case (2 x h p t0 k t e d rs)
  show ?case
  proof (cases i)
    case 0
    with 2 show ?thesis using rounds_hd [of rs] by simp
  next
    case (Suc j)
    with 2 show ?thesis by simp
  qed
qed simp

lemma rounds_due:
  assumes "i < length rs" and "t0 \<le> t"
  shows "t0 + (i - 1) * p \<le> fst (broadcast_rounds x h p t0 0 t rs ! i)"
proof (cases i)
  case 0
  then show ?thesis using assms rounds_hd [of rs] by force
next
  case (Suc j)
  then show ?thesis using assms(1) rounds_next [of j rs x h p t0 0 t] by simp
qed

lemma rounds_gap:
  assumes "Suc i < length rs" and "snd (rs ! i) \<le> p"
  shows "fst (broadcast_rounds x h p t0 0 t0 rs ! Suc i) \<le> fst (broadcast_rounds x h p t0 0 t0 rs ! i) + p"
proof -
  have "i * p \<le> (i - 1) * p + p" by (cases i) simp_all
  then show ?thesis
    using rounds_next [OF assms(1), of x h p t0 0 t0] rounds_due [of i rs t0 t0 p x h] assms
    by simp
qed

lemma rounds_sends:
  "i < length rs \<Longrightarrow>
   snd (broadcast_rounds x h p t0 k t rs ! i) = snd (send_alive x h (fst (rs ! i)) SSDP_ADDRESS)"
proof (induction x h p t0 k t rs arbitrary: i rule: broadcast_rounds.induct)
  case (2 x h p t0 k t e d rs)
  then show ?case by (cases i) (simp_all add: do_ssdp_alive_def)
qed simp

text \<open>What is renewed before it expires is there at every time from the first to the last.\<close>

lemma renewed_covers:
  fixes a :: "nat \<Rightarrow> nat"
  assumes "\<And>i. i < n \<Longrightarrow> a (Suc i) \<le> a i + lifetime" and "a 0 \<le> t" and "t < a n + lifetime"
  shows "\<exists>i \<le> n. a i \<le> t \<and> t < a i + lifetime"
  using assms
proof (induction n)
  case 0
  then show ?case by blast
next
  case (Suc n)
  show ?case
  proof (cases "a (Suc n) \<le> t")
    case True
    with Suc.prems(3) show ?thesis by blast
  next
    case False
    with Suc.prems(1) [of n] have "t < a n + lifetime" by simp
    with Suc obtain i where "i \<le> n" "a i \<le> t" "t < a i + lifetime" by force
    then show ?thesis by (intro exI [of _ i]) simp
  qed
qed

subsection \<open>Properties\<close>

text \<open>The schedule does not drift: announcement \<open>i + 1\<close> never starts before \<open>i\<close> periods have
  passed, and when every round fits in a period, two announcements are never more than a period
  apart (the first two follow each other at once).\<close>

lemma broadcast_schedule:
  assumes "broadcast_task x h period t0 rounds = Some rs" and "Suc i < length rounds"
    and "\<forall>r \<in> set rounds. snd r \<le> period"
  shows "t0 + i * period \<le> fst (rs ! Suc i) \<and> fst (rs ! Suc i) \<le> fst (rs ! i) + period"
  using assms rounds_gap [of i rounds period x h t0] rounds_due [of "Suc i" rounds t0 t0 period x h]
  by (auto simp: broadcast_task_def split: if_splits)

text \<open>Every round of the task announces on the multicast address what the description says at
  that time, or, when the description cannot be fetched, sends nothing and the task goes on.\<close>

lemma broadcast_survives_outage:
  assumes "broadcast_task x h period t0 rounds = Some rs"
  shows "length rs = length rounds \<and>
    (\<forall>i < length rounds. snd (rs ! i) =
      (case fetch_endpoint_info x (fst (rounds ! i)) of
         Inl _ \<Rightarrow> []
       | Inr info \<Rightarrow>
           if udp_ok (fst (rounds ! i))
           then [(to_string (now (fst (rounds ! i))) (build_alive h info), SSDP_ADDRESS)] else []))"
  using assms by (auto simp: broadcast_task_def rounds_sends alive.sends split: if_splits)

end
