(* ===== verification/Ssdp.thy ===== *)
theory Ssdp
  imports Listener Broadcast Steps
begin

section \<open>The SSDP side of the process (ssdp/mod.rs)\<close>

text \<open>
  \<open>SSDPManager::new\<close> with the sockets it sets up, and \<open>main_task\<close>: the initial goodbye, then the
  broadcast task, the shutdown handler it spawns and the listener side by side. The concurrent
  part is a step relation whose state logs every datagram sent.
\<close>

subsection \<open>Lifetime of an announcement\<close>

text \<open>\<^verbatim>\<open>as usize\<close> of a 64-bit product that wraps in the release profile.\<close>

definition cache_max_age_for :: "nat \<Rightarrow> nat" where
  "cache_max_age_for period = (if period < 20 then 20 else wrapping_mul period 2)"

subsection \<open>Sockets\<close>

definition LISTEN_ADDRESS :: socket_addr where
  "LISTEN_ADDRESS = SocketAddr (V4 0 0 0 0) 1900 0"

definition BROADCAST_ADDRESS :: socket_addr where
  "BROADCAST_ADDRESS = SocketAddr (V4 0 0 0 0) 0 0"

datatype sock = ListenSock | BroadcastSock

text \<open>The system calls of the set-up, in the program's vocabulary (Linux).\<close>

datatype sock_op =
    NewSocket sock
  | SetReuseAddress sock
  | SetReusePort sock
  | Bind sock socket_addr
  | SetNonblocking sock
  | FromStd sock
  | BindToDevice sock bytes
  | JoinMulticast sock ip_addr

text \<open>Run calls with their error contexts up to the first that fails: the calls made, and the context
  of the failure.\<close>

fun run_ops :: "(sock_op \<Rightarrow> bool) \<Rightarrow> (sock_op \<times> bytes) list \<Rightarrow> sock_op list \<times> failure option" where
  "run_ops fails [] = ([], None)"
| "run_ops fails ((op, context_msg) # rest) =
     (if fails op then ([op], Some (Context context_msg))
      else (case run_ops fails rest of (done_ops, r) \<Rightarrow> (op # done_ops, r)))"

definition open_socket :: "sock \<Rightarrow> socket_addr \<Rightarrow> bytes \<Rightarrow> bytes \<Rightarrow> (sock_op \<times> bytes) list" where
  "open_socket s addr name bind_context =
     [(NewSocket s, ''Failed to create '' @ name @ '' socket''),
      (SetReuseAddress s, ''Failed to set SO_REUSEADDR on '' @ name @ '' socket''),
      (SetReusePort s, ''Failed to set SO_REUSEPORT on '' @ name @ '' socket''),
      (Bind s addr, bind_context),
      (SetNonblocking s, ''Failed to set non-blocking on '' @ name @ '' socket''),
      (FromStd s, ''Failed to convert '' @ name @ '' socket to tokio'')]"

definition ssdp_sockets_script :: "bytes option \<Rightarrow> (sock_op \<times> bytes) list" where
  "ssdp_sockets_script broadcast_iface =
       (open_socket ListenSock LISTEN_ADDRESS ''listen'' ''Failed to bind SSDP listen socket'' @
        open_socket BroadcastSock BROADCAST_ADDRESS ''broadcast'' ''Failed to bind SSDP broadcast socket'' @
        (case broadcast_iface of
           None \<Rightarrow> []
         | Some iface \<Rightarrow>
             [(BindToDevice ListenSock iface, ''Failed to set SO_BINDTODEVICE on listen socket.''),
              (BindToDevice BroadcastSock iface, ''Failed to set SO_BINDTODEVICE on broadcast socket.'')]) @
        [(JoinMulticast ListenSock (ip SSDP_ADDRESS), ''Failed to join SSDP multicast group on listen socket.''),
         (JoinMulticast BroadcastSock (ip SSDP_ADDRESS), ''Failed to join SSDP multicast group on broadcast socket.'')])"

definition ssdp_sockets :: "(sock_op \<Rightarrow> bool) \<Rightarrow> bytes option \<Rightarrow> sock_op list \<times> failure option" where
  "ssdp_sockets fails broadcast_iface = run_ops fails (ssdp_sockets_script broadcast_iface)"

subsection \<open>The manager\<close>

record ssdp_manager =
  broadcast_period :: nat
  interactive :: interactive_ssdp

text \<open>\<open>client_ok\<close>: whether the HTTP client could be built.\<close>

definition ssdp_manager_new ::
    "bool \<Rightarrow> (sock_op \<Rightarrow> bool) \<Rightarrow> bytes \<Rightarrow> nat \<Rightarrow> bytes option \<Rightarrow> failure + ssdp_manager" where
  "ssdp_manager_new client_ok fails endpoint_desc_url period broadcast_iface =
     (if \<not> client_ok then Inl (Context ''Failed to build HTTP client'')
      else case snd (ssdp_sockets fails broadcast_iface) of
        Some err \<Rightarrow> Inl err
      | None \<Rightarrow>
          Inr \<lparr>broadcast_period = period,
               interactive = interactive_new endpoint_desc_url (cache_max_age_for period)\<rparr>)"

subsection \<open>The running process\<close>

record ssdp_state =
  sent :: "datagram list"
  broadcasting :: bool
  shutting_down :: shutdown_phase
  exited :: bool

text \<open>\<open>main_task\<close> up to where the tasks run: the initial goodbye unless in wait mode (its failure is
  only logged). A period of zero kills the broadcast task at once, after it has spawned the
  shutdown handler.\<close>

definition main_task_start ::
    "xml_parser \<Rightarrow> ssdp_manager \<Rightarrow> bool \<Rightarrow> env \<Rightarrow> ssdp_state" where
  "main_task_start x ssdp wait_mode e =
     \<lparr>sent = (if wait_mode then [] else snd (send_byebye x (interactive ssdp) e SSDP_ADDRESS)),
      broadcasting = (broadcast_period ssdp \<noteq> 0), shutting_down = Waiting, exited = False\<rparr>"

datatype ssdp_event =
    Announce env
  | Datagram recv env
  | Shutdown shutdown_event

text \<open>The broadcast task and the listener interleave round by round, the shutdown handler from one of its
  waits to the next: they go on while the goodbye is fetched and sent and until the process has
  exited. When the listener panics, \<open>main_task\<close> returns and the process ends.\<close>

inductive ssdp_step ::
    "httparse \<Rightarrow> xml_parser \<Rightarrow> ssdp_manager \<Rightarrow>
     ssdp_state \<Rightarrow> ssdp_event \<Rightarrow> ssdp_state \<Rightarrow> bool"
  for hp x m where
  announce: "\<not> exited s \<Longrightarrow> broadcasting s \<Longrightarrow>
    ssdp_step hp x m s (Announce e) (s\<lparr>sent := sent s @ snd (do_ssdp_alive x (interactive m) e)\<rparr>)"
| listen: "\<not> exited s \<Longrightarrow> listen_round hp x (interactive m) r e = Some ds \<Longrightarrow>
    ssdp_step hp x m s (Datagram r e) (s\<lparr>sent := sent s @ ds\<rparr>)"
| listen_panic: "\<not> exited s \<Longrightarrow> listen_round hp x (interactive m) r e = None \<Longrightarrow>
    ssdp_step hp x m s (Datagram r e) (s\<lparr>exited := True\<rparr>)"
| shutdown: "\<not> exited s \<Longrightarrow> shutdown_handler x (interactive m) (shutting_down s) ev = Some (p, ds) \<Longrightarrow>
    ssdp_step hp x m s (Shutdown ev) (s\<lparr>sent := sent s @ ds, shutting_down := p, exited := (p = Exited)\<rparr>)"

inductive_cases ssdp_stepE: "ssdp_step hp x m s ev s'"

inductive_simps ssdp_step_simps:
  "ssdp_step hp x m s (Announce e) s'" "ssdp_step hp x m s (Datagram r e) s'"
  "ssdp_step hp x m s (Shutdown ev) s'"

subsection \<open>What is on the wire\<close>

text \<open>The packets this process may send: announcements and goodbyes on the multicast address, replies
  to a searcher, all for the manager's description URL and lifetime.\<close>

definition legitimate :: "xml_parser \<Rightarrow> ssdp_manager \<Rightarrow> datagram \<Rightarrow> bool" where
  "legitimate x m d \<longleftrightarrow>
     (\<exists>e info. fetch_endpoint_info x e = Inr info \<and>
        (snd d = SSDP_ADDRESS \<and>
           (fst d = to_string (now e) (build_alive (interactive m) info) \<and> broadcast_period m \<noteq> 0 \<or>
            fst d = to_string (now e) (build_byebye (interactive m) info)) \<or>
         fst d = to_string (now e) (build_ok (interactive m) info)))"

definition ssdp_inv :: "xml_parser \<Rightarrow> ssdp_manager \<Rightarrow> ssdp_state \<Rightarrow> bool" where
  "ssdp_inv x m s \<longleftrightarrow>
     list_all (legitimate x m) (sent s) \<and> (broadcasting s \<longrightarrow> broadcast_period m \<noteq> 0)"

lemma legitimateI:
  assumes "fetch_endpoint_info x e = Inr info"
  shows "broadcast_period m \<noteq> 0 \<Longrightarrow>
      legitimate x m (to_string (now e) (build_alive (interactive m) info), SSDP_ADDRESS)"
    and "legitimate x m (to_string (now e) (build_byebye (interactive m) info), SSDP_ADDRESS)"
    and "legitimate x m (to_string (now e) (build_ok (interactive m) info), dest)"
  using assms unfolding legitimate_def fst_conv snd_conv by blast+

lemma legitimate_alive:
  "0 < broadcast_period m \<Longrightarrow>
   list_all (legitimate x m) (snd (do_ssdp_alive x (interactive m) e))"
  by (auto simp: list_all_iff do_ssdp_alive_def intro!: legitimateI dest!: alive.only_to_dest)

lemma legitimate_byebye:
  "list_all (legitimate x m) (snd (send_byebye x (interactive m) e SSDP_ADDRESS))"
  by (auto simp: list_all_iff intro!: legitimateI dest!: byebye.only_to_dest)

lemma legitimate_reply:
  "listen_round hp x (interactive m) r e = Some ds \<Longrightarrow> list_all (legitimate x m) ds"
  by (auto simp: list_all_iff listen_round_def intro!: legitimateI dest!: okay.only_to_dest
      split: recv.splits parse_outcome.splits if_splits)

lemma legitimate_shutdown:
  "shutdown_handler x (interactive m) p ev = Some (p', ds) \<Longrightarrow> list_all (legitimate x m) ds"
  using legitimate_byebye
  by (cases "(x, interactive m, p, ev)" rule: shutdown_handler.cases) (auto split: sum.splits)

interpretation ssdp: invariant_system "ssdp_step hp x m" "main_task_start x m w e0" "ssdp_inv x m"
proof
  show "ssdp_inv x m (main_task_start x m w e0)"
    using legitimate_byebye by (simp add: ssdp_inv_def main_task_start_def)
  show "ssdp_inv x m s \<Longrightarrow> ssdp_step hp x m s ev s' \<Longrightarrow> ssdp_inv x m s'" for s ev s'
    by (elim ssdp_stepE)
       (auto simp: ssdp_inv_def dest: legitimate_alive legitimate_reply legitimate_shutdown)
qed

subsection \<open>Properties\<close>

lemma announcement_gap:
  assumes "max_age_of h = cache_max_age_for period" and "2 * period < word_modulus"
    and "\<forall>r \<in> set rounds. snd r \<le> D" and "D \<le> period" and "period < 20 \<Longrightarrow> period + D \<le> 20"
    and "Suc i < length rounds"
  shows "fst (broadcast_rounds x h period t0 0 t0 rounds ! Suc i) + D \<le>
    fst (broadcast_rounds x h period t0 0 t0 rounds ! i) + max_age_of h"
proof -
  have "period + D \<le> cache_max_age_for period"
    using assms(2,4,5) by (auto simp: cache_max_age_for_def wrapping_mul_small mult.commute)
  moreover have "snd (rounds ! i) \<le> period"
    using assms(3,4,6) by (meson Suc_lessD le_trans nth_mem)
  ultimately show ?thesis
    using rounds_gap [OF assms(6), of period x h t0] assms(1) by simp
qed

text \<open>C14. The server never disappears from the network while the program runs: with the lifetime the
  manager computes, at every time from the first announcement to the expiry of the last, some
  announcement has been sent that has not expired, as long as the description can be fetched and no
  round takes longer than a period (and, for periods under 20 seconds, than what is left of the 20
  seconds). The announcement of a round goes out at any moment of it.\<close>

theorem announcements_never_lapse:
  fixes sent_after :: "nat \<Rightarrow> nat"
  assumes "ssdp_manager_new client_ok fails url period iface = Inr m"
    and "broadcast_task x (interactive m) period t0 rounds = Some rs"
    and "\<forall>r \<in> set rounds. fetch_endpoint_info x (fst r) \<in> range Inr \<and> udp_ok (fst r) \<and> snd r \<le> D"
    and "D \<le> period" and "period < 20 \<Longrightarrow> period + D \<le> 20" and "2 * period < word_modulus"
    and "length rounds = Suc n" and "\<forall>i \<le> n. sent_after i \<le> snd (rounds ! i)"
    and "fst (rs ! 0) + sent_after 0 \<le> t" and "t < fst (rs ! n) + sent_after n + max_age_of (interactive m)"
  shows "\<exists>i info. i \<le> n \<and> fst (rs ! i) + sent_after i \<le> t \<and>
    t < fst (rs ! i) + sent_after i + max_age_of (interactive m) \<and>
    fetch_endpoint_info x (fst (rounds ! i)) = Inr info \<and>
    snd (rs ! i) = [(to_string (now (fst (rounds ! i))) (build_alive (interactive m) info), SSDP_ADDRESS)]"
proof -
  let ?h = "interactive m"
  have rs: "rs = broadcast_rounds x ?h period t0 0 t0 rounds"
    using assms(2) by (simp add: broadcast_task_def split: if_splits)
  have m: "max_age_of ?h = cache_max_age_for period"
    using assms(1) by (auto simp: ssdp_manager_new_def interactive_new_def split: if_splits option.splits)
  have D: "\<forall>r \<in> set rounds. snd r \<le> D" using assms(3) by simp
  have "fst (rs ! Suc i) + sent_after (Suc i) \<le> fst (rs ! i) + sent_after i + max_age_of ?h" if "i < n" for i
  proof -
    have "sent_after (Suc i) \<le> snd (rounds ! Suc i)" "rounds ! Suc i \<in> set rounds"
      using that assms(7,8) by simp_all
    with D have "sent_after (Suc i) \<le> D" by (meson le_trans)
    with announcement_gap [OF m assms(6) D assms(4,5), of i x t0] that assms(7) show ?thesis
      by (simp add: rs)
  qed
  from renewed_covers [of n "\<lambda>i. fst (rs ! i) + sent_after i", OF this assms(9,10)]
  obtain i where i: "i \<le> n" "fst (rs ! i) + sent_after i \<le> t"
    "t < fst (rs ! i) + sent_after i + max_age_of ?h" by blast
  have "rounds ! i \<in> set rounds" using i(1) assms(7) by simp
  with assms(3) obtain info where f: "fetch_endpoint_info x (fst (rounds ! i)) = Inr info"
    "udp_ok (fst (rounds ! i))" by blast
  then have "snd (rs ! i) = [(to_string (now (fst (rounds ! i))) (build_alive ?h info), SSDP_ADDRESS)]"
    using i(1) assms(7) by (simp add: rs rounds_sends alive.sends)
  with i f(1) show ?thesis by blast
qed

definition sample_manager :: ssdp_manager where
  "sample_manager = \<lparr>broadcast_period = 895, interactive = interactive_new ''http://10.0.0.1:8200/d.xml'' 1790\<rparr>"

lemma sample_manager_new:
  "ssdp_manager_new True (\<lambda>_. False) ''http://10.0.0.1:8200/d.xml'' 895 (Some ''eth0'') = Inr sample_manager"
  by (simp add: ssdp_manager_new_def ssdp_sockets_def ssdp_sockets_script_def open_socket_def sample_manager_def
      cache_max_age_for_def wrapping_mul_def word_modulus_def)

theorem announcements_never_lapse_witness:
  "\<exists>rs i. broadcast_task reference_xml (interactive sample_manager) 895 0 (replicate 3 (sample_env, 2)) = Some rs \<and>
     fst (rs ! i) \<le> 1000 \<and> 1000 < fst (rs ! i) + 1790"
proof -
  let ?rs = "broadcast_rounds reference_xml (interactive sample_manager) 895 0 0 0 (replicate 3 (sample_env, 2))"
  have b: "broadcast_task reference_xml (interactive sample_manager) 895 0 (replicate 3 (sample_env, 2)) = Some ?rs"
    by (simp add: broadcast_task_def)
  have t: "fst (?rs ! 0) = 0" "fst (?rs ! 2) = 895"
    by (simp_all add: numeral_2_eq_2 numeral_3_eq_3)
  have "max_age_of (interactive sample_manager) = 1790"
    by (simp add: sample_manager_def interactive_new_def)
  with announcements_never_lapse [OF sample_manager_new b, of 2 2 "\<lambda>_. 0" 1000] t b sample_fetch show ?thesis
    by (force simp: word_modulus_def sample_env_def)
qed

text \<open>The advertised lifetime is at least 20 seconds and longer than the period, for every
  period below half the machine range; from there on the doubling wraps around, to a lifetime of
  zero at the first such period.\<close>

lemma cache_lifetime_bounds:
  assumes "2 * period < word_modulus"
  shows "20 \<le> cache_max_age_for period \<and> period < cache_max_age_for period \<and>
    cache_max_age_for (2 ^ 63) = 0"
  using assms by (simp add: cache_max_age_for_def wrapping_mul_def word_modulus_def)

text \<open>C17. Whatever happens on the network and in whatever order, every datagram the process has sent
  is an announcement or goodbye on the multicast address or a reply, for the manager's description
  URL and lifetime and for a description that was fetched; with a period of zero there is no
  announcement.\<close>

theorem only_legitimate_packets:
  assumes "reachable (ssdp_step hp x m) (main_task_start x m wait_mode e0) s" and "d \<in> set (sent s)"
  shows "\<exists>e info. fetch_endpoint_info x e = Inr info \<and>
    (snd d = SSDP_ADDRESS \<and>
       (fst d = to_string (now e) (build_alive (interactive m) info) \<and> broadcast_period m \<noteq> 0 \<or>
        fst d = to_string (now e) (build_byebye (interactive m) info)) \<or>
     fst d = to_string (now e) (build_ok (interactive m) info))"
  using ssdp.reachable_inv [OF assms(1)] assms(2)
  by (simp add: ssdp_inv_def list_all_iff legitimate_def)

theorem only_legitimate_packets_witness:
  "\<exists>e info. fetch_endpoint_info reference_xml e = Inr info \<and>
     (to_string [] (build_byebye (interactive sample_manager) sample_info) =
        to_string (now e) (build_alive (interactive sample_manager) info) \<or>
      to_string [] (build_byebye (interactive sample_manager) sample_info) =
        to_string (now e) (build_byebye (interactive sample_manager) info) \<or>
      to_string [] (build_byebye (interactive sample_manager) sample_info) =
        to_string (now e) (build_ok (interactive sample_manager) info))"
proof -
  let ?s = "main_task_start reference_xml sample_manager False sample_env"
  have "reachable (ssdp_step reference_httparse reference_xml sample_manager) ?s ?s"
    by (auto simp: reachable_def)
  moreover have "(to_string [] (build_byebye (interactive sample_manager) sample_info), SSDP_ADDRESS) \<in> set (sent ?s)"
    using byebye.sent [OF sample_fetch] by (simp add: main_task_start_def sample_env_def)
  ultimately show ?thesis
    using only_legitimate_packets by fastforce
qed

text \<open>C31. Unless the program waits for its server, and when the fetch of the description at its start
  succeeds and the socket sends, the first datagram it ever sends is a goodbye that clears the caches
  of the listening devices. (When the start-up goodbye fails the program only warns and goes on.)\<close>

theorem goodbye_is_first:
  assumes "run (ssdp_step hp x m) (main_task_start x m False e0) es s"
    and "fetch_endpoint_info x e0 = Inr info" and "udp_ok e0"
  shows "sent s \<noteq> [] \<and>
    hd (sent s) = (to_string (now e0) (build_byebye (interactive m) info), SSDP_ADDRESS)"
  using assms(1)
proof (induction rule: run.induct)
  case run_Nil
  then show ?case using byebye.sent [OF assms(2,3)] by (simp add: main_task_start_def)
next
  case (run_snoc es s e s')
  then show ?case by (auto elim!: ssdp_stepE)
qed

theorem goodbye_is_first_witness:
  "hd (sent (main_task_start reference_xml sample_manager False sample_env)) =
    (to_string [] (build_byebye (interactive sample_manager) sample_info), SSDP_ADDRESS)"
proof -
  have "run (ssdp_step reference_httparse reference_xml sample_manager)
      (main_task_start reference_xml sample_manager False sample_env) []
      (main_task_start reference_xml sample_manager False sample_env)"
    by (rule run_Nil)
  from goodbye_is_first [OF this sample_fetch] show ?thesis by (simp add: sample_env_def)
qed

text \<open>C32. One complete request with sixteen headers from anywhere on the network, whatever it asks for,
  ends the process, with no goodbye.\<close>

theorem sixteen_headers_end_process:
  assumes "\<not> exited s" and "httparse_ok hp" and "request_ok meth t fs" and "length fs = 16"
    and "length (http_request meth t fs) \<le> 1024"
  shows "ssdp_step hp x m s (Datagram (Received (http_request meth t fs) src) e) s' \<longleftrightarrow> s' = s\<lparr>exited := True\<rparr>"
proof -
  have "listen_round hp x (interactive m) (Received (http_request meth t fs) src) e = None"
    using requests_panic [OF assms(2-5)] .
  with assms(1) show ?thesis by (simp add: ssdp_step_simps)
qed

theorem sixteen_headers_end_process_witness:
  "ssdp_step reference_httparse reference_xml sample_manager
     (main_task_start reference_xml sample_manager True sample_env)
     (Datagram (Received (http_request ''GET'' ''/'' (replicate 16 (''X'', [], []))) client) sample_env)
     ((main_task_start reference_xml sample_manager True sample_env)\<lparr>exited := True\<rparr>)"
proof -
  have "request_ok ''GET'' ''/'' (replicate 16 (''X'', [], []))"
    "length (http_request ''GET'' ''/'' (replicate 16 (''X'', [], []))) \<le> 1024"
    by code_simp+
  then show ?thesis
    using sixteen_headers_end_process [OF _ reference_httparse_ok,
        where s = "main_task_start reference_xml sample_manager True sample_env"]
    by (simp add: main_task_start_def)
qed

lemma run_ops_result:
  "case run_ops fails script of
     (ops, None) \<Rightarrow> ops = map fst script \<and> (\<forall>op \<in> set ops. \<not> fails op)
   | (ops, Some _) \<Rightarrow> ops \<noteq> [] \<and> fails (last ops) \<and> (\<forall>op \<in> set (butlast ops). \<not> fails op)"
proof (induction fails script rule: run_ops.induct)
  case (2 fails op msg rest)
  then show ?case
    by (cases "fails op"; cases "run_ops fails rest"; cases "snd (run_ops fails rest)") auto
qed simp

text \<open>The socket set-up stops at the first system call that fails, with that call's error;
  otherwise every call was made, both sockets allowed address sharing before they were bound,
  carry the device when one is configured, and joined the group last.\<close>

lemma socket_setup:
  "case ssdp_sockets fails iface of
     (ops, None) \<Rightarrow>
       ops = [NewSocket ListenSock, SetReuseAddress ListenSock, SetReusePort ListenSock,
              Bind ListenSock LISTEN_ADDRESS, SetNonblocking ListenSock, FromStd ListenSock,
              NewSocket BroadcastSock, SetReuseAddress BroadcastSock, SetReusePort BroadcastSock,
              Bind BroadcastSock BROADCAST_ADDRESS, SetNonblocking BroadcastSock, FromStd BroadcastSock] @
             (case iface of None \<Rightarrow> [] | Some i \<Rightarrow> [BindToDevice ListenSock i, BindToDevice BroadcastSock i]) @
             [JoinMulticast ListenSock (V4 239 255 255 250), JoinMulticast BroadcastSock (V4 239 255 255 250)] \<and>
       (\<forall>op \<in> set ops. \<not> fails op)
   | (ops, Some _) \<Rightarrow>
       ops \<noteq> [] \<and> fails (last ops) \<and> (\<forall>op \<in> set (butlast ops). \<not> fails op)"
proof -
  have "map fst (ssdp_sockets_script iface) =
      [NewSocket ListenSock, SetReuseAddress ListenSock, SetReusePort ListenSock,
       Bind ListenSock LISTEN_ADDRESS, SetNonblocking ListenSock, FromStd ListenSock,
       NewSocket BroadcastSock, SetReuseAddress BroadcastSock, SetReusePort BroadcastSock,
       Bind BroadcastSock BROADCAST_ADDRESS, SetNonblocking BroadcastSock, FromStd BroadcastSock] @
      (case iface of None \<Rightarrow> [] | Some i \<Rightarrow> [BindToDevice ListenSock i, BindToDevice BroadcastSock i]) @
      [JoinMulticast ListenSock (V4 239 255 255 250), JoinMulticast BroadcastSock (V4 239 255 255 250)]"
    by (simp add: ssdp_sockets_script_def open_socket_def SSDP_ADDRESS_def split: option.split)
  note script = this
  show ?thesis
    using run_ops_result [where fails = fails and script = "ssdp_sockets_script iface"]
    unfolding script ssdp_sockets_def .
qed

end
