(* ===== verification/AddrRoundtrip.thy ===== *)
theory AddrRoundtrip
  imports NetAddr
begin

section \<open>Every socket address is read back from its printed form\<close>

text \<open>
  The round trip of \<open>NetAddr\<close>: dotted IPv4 addresses, and IPv6 addresses with their longest run of
  zeros compressed, with embedded IPv4 addresses and with scopes. An IPv6 parser also tries an IPv4
  address at every group, so the lemmas first show that these attempts fail.
\<close>

subsection \<open>A group of hexadecimal digits is not taken for an IPv4 address\<close>

lemma read_digits_rest:
  "read_digits r lim md n k t = Some (x, rest) \<Longrightarrow> rest = dropWhile (\<lambda>b. to_digit r b \<noteq> None) t"
  by (induction r lim md n k t rule: read_digits.induct) (auto split: option.splits if_splits)

lemma read_number_rest:
  "read_number r lim md zp t = Some (x, rest) \<Longrightarrow> rest = dropWhile (\<lambda>b. to_digit r b \<noteq> None) t"
  by (auto simp: read_number_def dest: read_digits_rest split: option.splits prod.splits if_splits)

text \<open>What may follow a group: the end, the end of the address, its scope, or another colon.\<close>

definition group_end :: "bytes \<Rightarrow> bool" where
  "group_end s \<longleftrightarrow> s = [] \<or> hd s = CHR '']'' \<or> hd s = CHR ''%'' \<or> hd s = CHR '':''"

lemma group_end_stops: "group_end s \<Longrightarrow> stops 16 s \<and> stops 10 s"
  by (auto simp: group_end_def stops_def to_digit_def code_def)

lemma not_ipv4:
  assumes "CHR ''.'' \<notin> set ds" and "group_end s"
  shows "read_ipv4_addr (ds @ s) = None"
proof (cases "read_octet 0 (ds @ s)")
  case (Some r)
  then obtain a rest where r: "r = (a, rest)" by (cases r)
  with Some have "rest = dropWhile (\<lambda>b. to_digit 10 b \<noteq> None) (ds @ s)"
    by (auto simp: read_octet_def read_separator_def dest: read_number_rest)
  moreover have "dropWhile (\<lambda>b. to_digit 10 b \<noteq> None) s = s"
    using group_end_stops [OF assms(2)] by (cases s) (auto simp: stops_def)
  ultimately have "rest = [] \<or> hd rest \<noteq> CHR ''.''"
    using assms set_dropWhileD [of _ "\<lambda>b. to_digit 10 b \<noteq> None" ds] hd_in_set
    by (cases "dropWhile (\<lambda>b. to_digit 10 b \<noteq> None) ds")
       (fastforce simp: dropWhile_append group_end_def dest: set_dropWhileD split: if_splits)+
  then have "read_octet 1 rest = None"
    by (cases rest) (auto simp: read_octet_def read_separator_def)
  with Some r show ?thesis by (simp add: read_ipv4_addr_def)
qed (simp add: read_ipv4_addr_def)

subsection \<open>Groups\<close>

definition colon_segments :: "16 word list \<Rightarrow> bytes" where
  "colon_segments ss = concat (map (\<lambda>x. CHR '':'' # format_hex (unat x)) ss)"

lemma colon_segments_simps [simp]:
  "colon_segments [] = []"
  "colon_segments (x # ss) = CHR '':'' # format_hex (unat x) @ colon_segments ss"
  by (simp_all add: colon_segments_def)

lemma format_segments_Cons: "format_segments (x # ss) = format_hex (unat x) @ colon_segments ss"
  by (induction ss arbitrary: x) simp_all

lemma hex_no_dot: "CHR ''.'' \<notin> set (format_hex n)"
proof
  assume "CHR ''.'' \<in> set (format_hex n)"
  then obtain d where "d < 16" "digit_char d = CHR ''.''"
    unfolding format_hex_def using hex.format_digits by metis
  with code_digit_char [of d] show False by (auto simp: code_def split: if_splits)
qed

lemma read_group_format:
  assumes "group_end s"
  shows "read_number 16 65536 (Some 4) True (format_hex (unat (x :: 16 word)) @ s) = Some (unat x, s)"
proof -
  have x: "unat x < 65536" using unsigned_less [of x] by simp
  with hex.format_length [of "unat x" 3] show ?thesis
    unfolding format_hex_def using group_end_stops [OF assms]
    by (intro hex.read_number_format) simp_all
qed

text \<open>What ends the groups: nothing, the end of the address or its scope, or the two colons.\<close>

definition groups_end :: "bytes \<Rightarrow> bool" where
  "groups_end s \<longleftrightarrow> s = [] \<or> hd s = CHR '']'' \<or> hd s = CHR ''%'' \<or> (\<exists>t. s = CHR '':'' # CHR '':'' # t)"

lemma groups_end_group_end: "groups_end s \<Longrightarrow> group_end (colon_segments ss @ s)"
  by (cases ss) (auto simp: groups_end_def group_end_def)

lemma no_group_at_end: "groups_end s \<Longrightarrow> read_number 16 65536 (Some 4) True s = None"
  using group_end_stops [OF groups_end_group_end [of s "[]"]]
  by (cases s) (auto simp: read_number_def stops_def)

lemma no_group_after_colon:
  "read_number 16 65536 (Some 4) True (CHR '':'' # t) = None" "read_ipv4_addr (CHR '':'' # t) = None"
  using not_ipv4 [of "[]" "CHR '':'' # t"]
  by (simp_all add: read_number_def to_digit_def code_def group_end_def)

lemma read_groups_end:
  assumes "groups_end s"
  shows "read_groups limit i s = ([], False, s)"
proof -
  have n: "read_number 16 65536 (Some 4) True s = None" by (rule no_group_at_end [OF assms])
  have v: "read_ipv4_addr s = None"
    using not_ipv4 [of "[]" s] groups_end_group_end [OF assms, of "[]"] by simp
  have "(read_separator (CHR '':'') i read_ipv4_addr s = None) \<and>
        (read_separator (CHR '':'') i (read_number 16 65536 (Some 4) True) s = None)"
    using assms n v
    by (cases s) (auto simp: read_separator_def groups_end_def no_group_after_colon)
  then show ?thesis by (subst read_groups.simps) simp
qed

lemma read_groups_colon:
  assumes "groups_end s"
  shows "0 < i \<Longrightarrow> i + length ss \<le> limit \<Longrightarrow> read_groups limit i (colon_segments ss @ s) = (ss, False, s)"
proof (induction ss arbitrary: i)
  case Nil
  then show ?case using read_groups_end [OF assms] by simp
next
  case (Cons x ss)
  have e: "group_end (colon_segments ss @ s)" by (rule groups_end_group_end [OF assms])
  from Cons have "read_groups limit (Suc i) (colon_segments ss @ s) = (ss, False, s)" by simp
  with Cons.prems read_group_format [OF e, of x] not_ipv4 [OF hex_no_dot e, of "unat x"] show ?case
    by (subst read_groups.simps) (simp add: read_separator_def)
qed

lemma read_groups_format:
  assumes "groups_end s" and "length ss \<le> limit"
  shows "read_groups limit 0 (format_segments ss @ s) = (ss, False, s)"
proof (cases ss)
  case Nil
  then show ?thesis using read_groups_end [OF assms(1)] by simp
next
  case (Cons x xs)
  have e: "group_end (colon_segments xs @ s)" by (rule groups_end_group_end [OF assms(1)])
  have "read_groups limit 1 (colon_segments xs @ s) = (xs, False, s)"
    using assms(2) Cons read_groups_colon [OF assms(1), of 1 xs limit] by simp
  with Cons assms(2) read_group_format [OF e, of x] not_ipv4 [OF hex_no_dot e, of "unat x"] show ?thesis
    by (subst read_groups.simps) (simp add: read_separator_def format_segments_Cons)
qed

subsection \<open>The run of zeros that is left out\<close>

definition zero_run :: "16 word list \<Rightarrow> nat \<times> nat \<Rightarrow> bool" where
  "zero_run segs r \<longleftrightarrow>
     (\<exists>pre post. segs = pre @ replicate (snd r) 0 @ post \<and> length pre = fst r)"

lemma zero_run_append: "zero_run segs r \<Longrightarrow> zero_run (segs @ ts) r"
  unfolding zero_run_def by fastforce

lemma zero_run_split:
  "zero_run segs (start, len) \<Longrightarrow> segs = take start segs @ replicate len 0 @ drop (start + len) segs"
  by (auto simp: zero_run_def)

definition zero_tail :: "16 word list \<Rightarrow> nat \<times> nat \<Rightarrow> bool" where
  "zero_tail segs r \<longleftrightarrow>
     snd r = 0 \<or> (\<exists>pre. segs = pre @ replicate (snd r) 0 \<and> length pre = fst r)"

lemma zero_tail_Suc:
  assumes "zero_tail segs r"
  shows "zero_tail (segs @ [0]) (if snd r = 0 then (length segs, 1) else (fst r, snd r + 1))"
  using assms by (auto simp: zero_tail_def replicate_append_same)

lemma zero_tail_run: "zero_tail segs r \<Longrightarrow> snd r \<noteq> 0 \<Longrightarrow> zero_run segs r"
  by (fastforce simp: zero_tail_def zero_run_def)

lemma zero_span_run:
  "zero_run pre longest \<Longrightarrow> zero_tail pre current \<Longrightarrow>
   zero_run (pre @ segs) (zero_span (length pre) current longest segs)"
proof (induction segs arbitrary: pre current longest)
  case Nil
  then show ?case by simp
next
  case (Cons x segs)
  show ?case
  proof (cases "x = 0")
    case True
    let ?c = "if snd current = 0 then (length pre, 1) else (fst current, snd current + 1)"
    have c: "zero_tail (pre @ [0]) ?c" by (rule zero_tail_Suc [OF Cons.prems(2)])
    moreover have "zero_run (pre @ [0]) (if snd ?c > snd longest then ?c else longest)"
      using zero_tail_run [OF c] zero_run_append [OF Cons.prems(1)] by auto
    ultimately show ?thesis
      using Cons.IH [of "pre @ [0]" "if snd ?c > snd longest then ?c else longest" ?c] True
      by (simp add: Let_def)
  next
    case False
    have "zero_tail (pre @ [x]) (0, 0)" by (simp add: zero_tail_def)
    from Cons.IH [OF zero_run_append [OF Cons.prems(1)] this] False show ?thesis by simp
  qed
qed

lemma zero_span_split:
  assumes "zero_span 0 (0, 0) (0, 0) segs = (start, len)"
  shows "segs = take start segs @ replicate len 0 @ drop (start + len) segs"
    and "length (take start segs) + len + length (drop (start + len) segs) = length segs"
proof -
  have "zero_run ([] @ segs) (zero_span (length ([] :: 16 word list)) (0, 0) (0, 0) segs)"
    by (rule zero_span_run) (simp_all add: zero_run_def zero_tail_def)
  then show s: "segs = take start segs @ replicate len 0 @ drop (start + len) segs"
    using assms zero_run_split by simp
  from arg_cong [OF this, of length]
  show "length (take start segs) + len + length (drop (start + len) segs) = length segs"
    by (metis add.assoc length_append length_replicate)
qed

subsection \<open>IPv6 addresses\<close>

definition address_end :: "bytes \<Rightarrow> bool" where
  "address_end s \<longleftrightarrow> s \<noteq> [] \<and> (hd s = CHR '']'' \<or> hd s = CHR ''%'')"

lemma address_end: "address_end s \<Longrightarrow> groups_end s \<and> group_end s \<and> stops 10 s"
  using group_end_stops [of s] by (auto simp: address_end_def groups_end_def group_end_def)

lemma bytes_of_segment:
  "word_cat (ucast (drop_bit 8 x) :: 8 word) (ucast x :: 8 word) = (x :: 16 word)"
  by (intro bit_word_eqI) (auto simp: bit_word_cat_iff bit_simps)

lemma read_compressed:
  assumes "length hd_segs + len + length tl_segs = 8" and "0 < len" and "address_end s"
  shows "read_ipv6_addr (format_segments hd_segs @ ''::'' @ format_segments tl_segs @ s) =
           Some (hd_segs @ replicate len 0 @ tl_segs, s)"
proof -
  have c: "groups_end (''::'' @ t)" for t by (simp add: groups_end_def)
  have h: "read_groups 8 0 (format_segments hd_segs @ ''::'' @ format_segments tl_segs @ s) =
          (hd_segs, False, ''::'' @ format_segments tl_segs @ s)"
    by (rule read_groups_format [OF c]) (use assms in simp)
  have "read_groups (8 - (length hd_segs + 1)) 0 (format_segments tl_segs @ s) = (tl_segs, False, s)"
    by (rule read_groups_format) (use assms address_end in auto)
  moreover have "8 - length hd_segs - length tl_segs = len" "length hd_segs \<noteq> 8"
    using assms(1,2) by auto
  ultimately show ?thesis using h by (simp add: read_ipv6_addr_def)
qed

lemma read_groups_mapped:
  assumes "stops 10 s"
  shows "read_groups 7 0 (''ffff:'' @ format_v4 a b c d @ s) =
           ([0xFFFF, word_cat a b, word_cat c d], True, s)"
proof -
  have e: "group_end (CHR '':'' # t)" for t by (simp add: group_end_def)
  have "read_ipv4_addr (''ffff'' @ CHR '':'' # t) = None" for t by (rule not_ipv4 [OF _ e]) simp
  moreover have "read_number 16 65536 (Some 4) True (''ffff'' @ CHR '':'' # t) = Some (65535, CHR '':'' # t)" for t
    by (simp add: read_number_def to_digit_def code_def)
  moreover have "read_groups 7 1 (CHR '':'' # format_v4 a b c d @ s) = ([word_cat a b, word_cat c d], True, s)"
    using read_ipv4_format [OF assms, of a b c d] by (subst read_groups.simps) (simp add: read_separator_def)
  ultimately show ?thesis by (subst read_groups.simps) (simp add: read_separator_def)
qed

lemma read_mapped:
  assumes "address_end s"
  shows "read_ipv6_addr (''::ffff:'' @ format_v4 a b c d @ s) =
           Some ([0, 0, 0, 0, 0, 0xFFFF, word_cat a b, word_cat c d], s)"
proof -
  have "read_groups 8 0 (''::ffff:'' @ format_v4 a b c d @ s) = ([], False, ''::ffff:'' @ format_v4 a b c d @ s)"
    by (rule read_groups_end) (simp add: groups_end_def)
  moreover have "stops 10 s" using address_end [OF assms] by simp
  ultimately show ?thesis
    using read_groups_mapped [of s a b c d] by (simp add: read_ipv6_addr_def eval_nat_numeral)
qed

lemma list_of_8:
  assumes "length xs = 8" and "take 6 xs = [a, b, c, d, e, f]"
  shows "xs = [a, b, c, d, e, f, xs ! 6, xs ! 7]"
  using assms by (auto simp: eval_nat_numeral length_Suc_conv)

lemma read_ipv6_format:
  assumes "length segs = 8" and "address_end s"
  shows "read_ipv6_addr (format_v6 segs @ s) = Some (segs, s)"
proof (cases "take 6 segs = [0, 0, 0, 0, 0, 0xFFFF]")
  case True
  with list_of_8 [OF assms(1) True] read_mapped [OF assms(2)] assms(1) show ?thesis
    by (simp add: format_v6_def to_ipv4_mapped_def bytes_of_segment)
next
  case False
  obtain start len where z: "zero_span 0 (0, 0) (0, 0) segs = (start, len)" by fastforce
  show ?thesis
  proof (cases "len > 1")
    case True
    with z False read_compressed [of "take start segs" len "drop (start + len) segs" s]
      zero_span_split [OF z] assms show ?thesis
      by (simp add: format_v6_def to_ipv4_mapped_def)
  next
    case no: False
    from read_groups_format [of s segs 8] address_end [OF assms(2)] assms(1)
    have "read_groups 8 0 (format_segments segs @ s) = (segs, False, s)" by simp
    with no z False assms(1) show ?thesis
      by (simp add: format_v6_def to_ipv4_mapped_def read_ipv6_addr_def)
  qed
qed

subsection \<open>Socket addresses\<close>

lemma read_scope_format:
  assumes "scope \<noteq> 0"
  shows "read_scope_id (CHR ''%'' # format_word scope @ CHR '']'' # s) = Some (scope, CHR '']'' # s)"
proof -
  have "unat scope < 4294967296" using unsigned_less [of scope] by simp
  then have "read_number 10 4294967296 None True (format_word scope @ CHR '']'' # s) =
               Some (unat scope, CHR '']'' # s)"
    unfolding format_word_def format_usize_def
    by (intro dec.read_number_format) (simp_all add: stops_def to_digit_def code_def)
  then show ?thesis by (simp add: read_scope_id_def)
qed

lemma no_scope: "read_scope_id (CHR '']'' # s) = None"
  by (simp add: read_scope_id_def)

text \<open>The addresses the standard library's types hold: a scope only beside eight segments.\<close>

fun addr_ok :: "socket_addr \<Rightarrow> bool" where
  "addr_ok (SocketAddr (V4 _ _ _ _) _ scope) \<longleftrightarrow> scope = 0"
| "addr_ok (SocketAddr (V6 segs) _ _) \<longleftrightarrow> length segs = 8"

lemma read_v6_format:
  assumes "length segs = 8"
  shows "read_socket_addr_v6 (format_socket_addr (SocketAddr (V6 segs) p scope)) =
           Some (SocketAddr (V6 segs) p scope, [])"
proof -
  have "read_ipv6_addr (format_v6 segs @ s) = Some (segs, s)" if "address_end s" for s
    using read_ipv6_format [OF assms that] .
  then show ?thesis
    by (simp add: read_socket_addr_v6_def format_socket_addr_def address_end_def read_scope_format
        no_scope read_port_format)
qed

lemma v6_no_v4: "read_socket_addr_v4 (CHR ''['' # s) = None"
  by (simp add: read_socket_addr_v4_def read_ipv4_addr_def read_octet_def read_separator_def
      read_number_def to_digit_def code_def)

text \<open>Every socket address is read back from its printed form.\<close>

lemma socket_addr_roundtrip:
  assumes "addr_ok a"
  shows "parse_socket_addr (format_socket_addr a) = Some a"
proof (cases a)
  case (SocketAddr i p scope)
  show ?thesis
  proof (cases i)
    case (V4 x y z w)
    with assms SocketAddr show ?thesis
      by (simp add: parse_socket_addr_def format_socket_addr_def read_socket_addr_v4_def
          read_ipv4_format read_port_format)
  next
    case (V6 segs)
    with assms SocketAddr have s: "length segs = 8" by simp
    have "read_socket_addr_v4 (format_socket_addr a) = None"
      using V6 SocketAddr by (simp add: format_socket_addr_def v6_no_v4)
    with read_v6_format [OF s, of p scope] SocketAddr V6 show ?thesis
      by (simp add: parse_socket_addr_def)
  qed
qed

end
