(* ===== verification/Config.thy ===== *)
theory Config
  imports AddrRoundtrip Interactive
begin

section \<open>Configuration (config.rs)\<close>

text \<open>
  \<open>get_config\<close> from a parsed command line or a file, with its defaults, and \<open>sockaddr_from_url\<close>.
  The command-line parser (\<^verbatim>\<open>clap\<close>), the file system, the TOML deserialiser, URLs and the name
  resolver are parameters: \<open>read_file\<close>, \<open>from_toml\<close>, the operations of \<open>url_ops\<close>, \<open>lookup_host\<close>.
\<close>

subsection \<open>Data\<close>

datatype level_filter = Warn | Info | Debug | Trace

text \<open>The levels are ordered by how much they let through.\<close>

fun level_rank :: "level_filter \<Rightarrow> nat" where
  "level_rank Warn = 0"
| "level_rank Info = 1"
| "level_rank Debug = 2"
| "level_rank Trace = 3"

lemma level_rank_inj: "level_rank a = level_rank b \<longleftrightarrow> a = b"
  by (cases a; cases b) simp_all

instantiation level_filter :: linorder
begin

definition less_eq_level_filter :: "level_filter \<Rightarrow> level_filter \<Rightarrow> bool" where
  "less_eq_level_filter a b \<longleftrightarrow> level_rank a \<le> level_rank b"

definition less_level_filter :: "level_filter \<Rightarrow> level_filter \<Rightarrow> bool" where
  "less_level_filter a b \<longleftrightarrow> level_rank a < level_rank b"

instance
  by standard (auto simp: less_eq_level_filter_def less_level_filter_def level_rank_inj)

end

record 'url url_ops =
  url_parse :: "bytes \<Rightarrow> 'url option"
  url_host :: "'url \<Rightarrow> bytes option"
  url_port :: "'url \<Rightarrow> 16 word option"
  url_set_ip_host :: "ip_addr \<Rightarrow> 'url \<Rightarrow> 'url option"
  url_set_port :: "16 word \<Rightarrow> 'url \<Rightarrow> 'url option"
  url_str :: "'url \<Rightarrow> bytes"

record 'url command_line_conf =
  arg_config :: "bytes option"
  arg_description_url :: "'url option"
  arg_interval :: "nat option"
  arg_proxy :: "socket_addr option"
  arg_iface :: "bytes option"
  arg_wait :: "nat option"
  arg_connect_timeout :: "nat option"
  arg_proxy_timeout :: "nat option"
  arg_stream_timeout :: "nat option"
  arg_verbose :: nat

record raw_config =
  raw_description_url :: "bytes option"
  raw_period :: "nat option"
  raw_proxy :: "bytes option"
  raw_verbose :: "nat option"
  raw_iface :: "bytes option"
  raw_wait :: "nat option"
  raw_connect_timeout :: "nat option"
  raw_proxy_timeout :: "nat option"
  raw_stream_timeout :: "nat option"

record 'url config =
  cfg_description_url :: 'url
  cfg_period :: nat
  cfg_proxy :: "socket_addr option"
  cfg_broadcast_iface :: "bytes option"
  cfg_verbose :: level_filter
  cfg_wait :: "nat option"
  cfg_connect_timeout :: nat
  cfg_proxy_timeout :: nat
  cfg_stream_timeout :: nat

subsection \<open>get\_config\<close>

definition verbosity :: "nat option \<Rightarrow> level_filter" where
  "verbosity verbose =
     (case verbose of
        None \<Rightarrow> Warn
      | Some v \<Rightarrow> if v = 0 then Warn else if v = 1 then Info else if v = 2 then Debug else Trace)"

definition or_default :: "nat option \<Rightarrow> nat \<Rightarrow> nat" where
  "or_default v d = (case v of None \<Rightarrow> d | Some n \<Rightarrow> n)"

text \<open>The settings before defaults, from a file or from the command line.\<close>

record 'url settings =
  set_description_url :: 'url
  set_period :: "nat option"
  set_proxy :: "socket_addr option"
  set_iface :: "bytes option"
  set_verbose :: "nat option"
  set_wait :: "nat option"
  set_connect_timeout :: "nat option"
  set_proxy_timeout :: "nat option"
  set_stream_timeout :: "nat option"

definition file_url :: "'url url_ops \<Rightarrow> raw_config \<Rightarrow> failure + 'url" where
  "file_url ops raw =
     (case raw_description_url raw of
        None \<Rightarrow> Inl (Context ''Missing description URL'')
      | Some s \<Rightarrow>
          (case url_parse ops s of
             None \<Rightarrow> Inl (Context ''Bad description URL.'')
           | Some u \<Rightarrow> Inr u))"

definition file_proxy :: "raw_config \<Rightarrow> failure + socket_addr option" where
  "file_proxy raw =
     (case raw_proxy raw of
        None \<Rightarrow> Inr None
      | Some p \<Rightarrow>
          (case parse_socket_addr p of
             None \<Rightarrow> Inl (Context ''Bad proxy address'')
           | Some a \<Rightarrow> Inr (Some a)))"

definition file_settings ::
    "'url url_ops \<Rightarrow> (bytes \<Rightarrow> raw_config option) \<Rightarrow> bytes \<Rightarrow> failure + 'url settings" where
  "file_settings ops from_toml config_file =
     (case from_toml config_file of
        None \<Rightarrow> Inl (Context ''failed to parse config file.'')
      | Some raw \<Rightarrow>
          (case file_url ops raw of
             Inl err \<Rightarrow> Inl err
           | Inr u \<Rightarrow>
               (case file_proxy raw of
                  Inl err \<Rightarrow> Inl err
                | Inr proxy \<Rightarrow>
                    Inr \<lparr>set_description_url = u, set_period = raw_period raw,
                         set_proxy = proxy, set_iface = raw_iface raw,
                         set_verbose = raw_verbose raw, set_wait = raw_wait raw,
                         set_connect_timeout = raw_connect_timeout raw,
                         set_proxy_timeout = raw_proxy_timeout raw,
                         set_stream_timeout = raw_stream_timeout raw\<rparr>)))"

definition command_line_settings :: "'url command_line_conf \<Rightarrow> failure + 'url settings" where
  "command_line_settings args =
     (case arg_description_url args of
        None \<Rightarrow> Inl (Context ''Missing description URL'')
      | Some u \<Rightarrow>
          Inr \<lparr>set_description_url = u, set_period = arg_interval args,
               set_proxy = arg_proxy args, set_iface = arg_iface args,
               set_verbose = Some (arg_verbose args), set_wait = arg_wait args,
               set_connect_timeout = arg_connect_timeout args,
               set_proxy_timeout = arg_proxy_timeout args,
               set_stream_timeout = arg_stream_timeout args\<rparr>)"

definition with_defaults :: "'url settings \<Rightarrow> 'url config" where
  "with_defaults s =
     \<lparr>cfg_description_url = set_description_url s,
      cfg_period = or_default (set_period s) 895,
      cfg_proxy = set_proxy s,
      cfg_broadcast_iface = set_iface s,
      cfg_verbose = verbosity (set_verbose s),
      cfg_wait = set_wait s,
      cfg_connect_timeout = or_default (set_connect_timeout s) 2,
      cfg_proxy_timeout = or_default (set_proxy_timeout s) 10,
      cfg_stream_timeout = or_default (set_stream_timeout s) 300\<rparr>"

definition get_config ::
    "'url url_ops \<Rightarrow> (bytes \<Rightarrow> bytes option) \<Rightarrow> (bytes \<Rightarrow> raw_config option) \<Rightarrow>
     'url command_line_conf \<Rightarrow> failure + 'url config" where
  "get_config ops read_file from_toml args =
     (case arg_config args of
        Some file \<Rightarrow>
          (case read_file file of
             None \<Rightarrow> Inl (Context ''Could not open/read config file.'')
           | Some config_file \<Rightarrow> map_sum id with_defaults (file_settings ops from_toml config_file))
      | None \<Rightarrow> map_sum id with_defaults (command_line_settings args))"

subsection \<open>sockaddr\_from\_url\<close>

text \<open>\<^verbatim>\<open>to_socket_addrs\<close> of a string: a literal address is itself, anything else is split at its last
  colon into a host to look up and a port.\<close>

definition rsplit_once :: "byte \<Rightarrow> bytes \<Rightarrow> (bytes \<times> bytes) option" where
  "rsplit_once c s =
     (if c \<in> set s
      then Some (rev (tl (dropWhile (\<lambda>b. b \<noteq> c) (rev s))), rev (takeWhile (\<lambda>b. b \<noteq> c) (rev s)))
      else None)"

definition parse_u16 :: "bytes \<Rightarrow> 16 word option" where
  "parse_u16 s =
     (case from_str_radix 10 s of
        None \<Rightarrow> None
      | Some n \<Rightarrow> if n < 65536 then Some (of_nat n) else None)"

definition to_socket_addrs :: "(bytes \<Rightarrow> 16 word \<Rightarrow> socket_addr list option) \<Rightarrow> bytes \<Rightarrow> socket_addr list option" where
  "to_socket_addrs lookup_host s =
     (case parse_socket_addr s of
        Some a \<Rightarrow> Some [a]
      | None \<Rightarrow>
          (case rsplit_once (CHR '':'') s of
             None \<Rightarrow> None
           | Some (host, p) \<Rightarrow> Option.bind (parse_u16 p) (lookup_host host)))"

definition sockaddr_from_url ::
    "'url url_ops \<Rightarrow> (bytes \<Rightarrow> 16 word \<Rightarrow> socket_addr list option) \<Rightarrow> 'url \<Rightarrow> failure + socket_addr" where
  "sockaddr_from_url ops lookup_host url =
     (case url_host ops url of
        None \<Rightarrow> Inl (Context (''URL has no host: '' @ url_str ops url))
      | Some host \<Rightarrow>
          (case url_port ops url of
             None \<Rightarrow> Inl (Context (''URL has no port and unknown scheme: '' @ url_str ops url))
           | Some p \<Rightarrow>
               (case to_socket_addrs lookup_host (host @ '':'' @ format_word p) of
                  None \<Rightarrow>
                    Inl (Context (''Couldn't resolve or build socket address from URL: '' @ url_str ops url))
                | Some [] \<Rightarrow>
                    Inl (Context (''No valid socket address resolved for URL: '' @ url_str ops url))
                | Some (a # _) \<Rightarrow> Inr a)))"

subsection \<open>Properties\<close>

text \<open>With a readable and well-formed configuration file every other command-line option is
  ignored: two command lines that name the same file give the same configuration.\<close>

lemma config_file_overrides_command_line:
  assumes "arg_config args = Some file" and "arg_config args' = Some file"
  shows "get_config ops read_file from_toml args = get_config ops read_file from_toml args'"
  using assms by (simp add: get_config_def)

text \<open>URLs for the concrete instances: host and port.\<close>

fun host_text :: "ip_addr \<Rightarrow> bytes" where
  "host_text (V4 a b c d) = format_v4 a b c d"
| "host_text (V6 segs) = ''['' @ format_v6 segs @ '']''"

definition pair_ops :: "(bytes \<times> 16 word) url_ops" where
  "pair_ops = \<lparr>url_parse = (\<lambda>s. if s = [] then None else Some (s, 80)),
     url_host = (\<lambda>u. Some (fst u)), url_port = (\<lambda>u. Some (snd u)),
     url_set_ip_host = (\<lambda>a u. Some (host_text a, snd u)), url_set_port = (\<lambda>p u. Some (fst u, p)),
     url_str = (\<lambda>u. ''http://'' @ fst u @ '':'' @ format_word (snd u))\<rparr>"

definition no_args :: "(bytes \<times> 16 word) command_line_conf" where
  "no_args = \<lparr>arg_config = None, arg_description_url = Some (''srv'', 80), arg_interval = None,
     arg_proxy = None, arg_iface = None, arg_wait = None, arg_connect_timeout = None,
     arg_proxy_timeout = None, arg_stream_timeout = None, arg_verbose = 0\<rparr>"

text \<open>Without a configuration file the configuration is the command line with the documented
  defaults, and it fails exactly when there is no description URL.\<close>

lemma config_from_command_line:
  assumes "arg_config args = None"
  shows "get_config ops read_file from_toml args =
    (case arg_description_url args of
       None \<Rightarrow> Inl (Context ''Missing description URL'')
     | Some u \<Rightarrow> Inr \<lparr>cfg_description_url = u,
         cfg_period = (case arg_interval args of None \<Rightarrow> 895 | Some n \<Rightarrow> n),
         cfg_proxy = arg_proxy args, cfg_broadcast_iface = arg_iface args,
         cfg_verbose = [Warn, Info, Debug, Trace] ! min (arg_verbose args) 3,
         cfg_wait = arg_wait args,
         cfg_connect_timeout = (case arg_connect_timeout args of None \<Rightarrow> 2 | Some n \<Rightarrow> n),
         cfg_proxy_timeout = (case arg_proxy_timeout args of None \<Rightarrow> 10 | Some n \<Rightarrow> n),
         cfg_stream_timeout = (case arg_stream_timeout args of None \<Rightarrow> 300 | Some n \<Rightarrow> n)\<rparr>)"
proof -
  have "verbosity (Some v) = [Warn, Info, Debug, Trace] ! min v 3" for v
    by (cases "v < 3") (auto simp: verbosity_def min_def numeral_3_eq_3 less_Suc_eq)
  with assms show ?thesis
    by (simp add: get_config_def command_line_settings_def with_defaults_def or_default_def
        split: option.split)
qed

text \<open>More verbosity flags never show less.\<close>

lemma verbosity_monotone:
  assumes "v \<le> w"
  shows "verbosity (Some v) \<le> verbosity (Some w)"
  using assms by (auto simp: verbosity_def less_eq_level_filter_def)

text \<open>What a setting with a default comes to, and what \<open>v\<close> occurrences of the verbosity flag show.\<close>

definition takes :: "nat \<Rightarrow> nat option \<Rightarrow> nat \<Rightarrow> bool" where
  "takes n given default_value \<longleftrightarrow> given = Some n \<or> given = None \<and> n = default_value"

lemma takes_or_default: "or_default v d = n \<longleftrightarrow> takes n v d"
  by (cases v) (auto simp: or_default_def takes_def)

lemma verbosity_levels: "verbosity v = [Warn, Info, Debug, Trace] ! min (case v of None \<Rightarrow> 0 | Some n \<Rightarrow> n) 3"
  by (cases v) (auto simp: verbosity_def min_def numeral_2_eq_2 numeral_3_eq_3 less_Suc_eq_le le_Suc_eq not_le)

text \<open>What the file settings come to.\<close>

lemma some_map_some: "Some y = map_option Some q \<longleftrightarrow> (\<exists>a. q = Some a \<and> y = Some a)"
  by (cases q) auto

lemma file_settings_iff:
  "file_settings ops from_toml text = Inr st \<longleftrightarrow>
     (\<exists>raw s u proxy. from_toml text = Some raw \<and> raw_description_url raw = Some s \<and> url_parse ops s = Some u \<and>
        map_option parse_socket_addr (raw_proxy raw) = map_option Some proxy \<and>
        st = \<lparr>set_description_url = u, set_period = raw_period raw, set_proxy = proxy,
              set_iface = raw_iface raw, set_verbose = raw_verbose raw, set_wait = raw_wait raw,
              set_connect_timeout = raw_connect_timeout raw, set_proxy_timeout = raw_proxy_timeout raw,
              set_stream_timeout = raw_stream_timeout raw\<rparr>)"
  by (auto simp: file_settings_def file_url_def file_proxy_def some_map_some split: option.splits sum.splits)

lemma file_settings_error:
  "file_settings ops from_toml text = Inl err \<longleftrightarrow>
     (case from_toml text of
        None \<Rightarrow> err = Context ''failed to parse config file.''
      | Some raw \<Rightarrow>
          (case raw_description_url raw of
             None \<Rightarrow> err = Context ''Missing description URL''
           | Some s \<Rightarrow>
               url_parse ops s = None \<and> err = Context ''Bad description URL.'' \<or>
               url_parse ops s \<noteq> None \<and> map_option parse_socket_addr (raw_proxy raw) = Some None \<and>
                 err = Context ''Bad proxy address''))"
  by (auto simp: file_settings_def file_url_def file_proxy_def split: option.splits)

lemma with_defaults_iff:
  "with_defaults st = c \<longleftrightarrow>
     cfg_description_url c = set_description_url st \<and> cfg_proxy c = set_proxy st \<and>
     takes (cfg_period c) (set_period st) 895 \<and> cfg_broadcast_iface c = set_iface st \<and>
     cfg_verbose c = verbosity (set_verbose st) \<and> cfg_wait c = set_wait st \<and>
     takes (cfg_connect_timeout c) (set_connect_timeout st) 2 \<and>
     takes (cfg_proxy_timeout c) (set_proxy_timeout st) 10 \<and>
     takes (cfg_stream_timeout c) (set_stream_timeout st) 300"
  by (cases c) (auto simp: with_defaults_def takes_or_default [symmetric])

lemma map_sum_iff:
  "map_sum id f r = Inr y \<longleftrightarrow> (\<exists>x. r = Inr x \<and> f x = y)" "map_sum id f r = Inl e \<longleftrightarrow> r = Inl e"
  by (cases r; auto)+

lemma file_config_iff:
  "(\<exists>st. file_settings ops from_toml text = Inr st \<and> with_defaults st = c) \<longleftrightarrow>
     (\<exists>raw s. from_toml text = Some raw \<and>
        raw_description_url raw = Some s \<and> url_parse ops s = Some (cfg_description_url c) \<and>
        map_option parse_socket_addr (raw_proxy raw) = map_option Some (cfg_proxy c) \<and>
        takes (cfg_period c) (raw_period raw) 895 \<and> cfg_broadcast_iface c = raw_iface raw \<and>
        cfg_verbose c = [Warn, Info, Debug, Trace] ! min (case raw_verbose raw of None \<Rightarrow> 0 | Some v \<Rightarrow> v) 3 \<and>
        cfg_wait c = raw_wait raw \<and>
        takes (cfg_connect_timeout c) (raw_connect_timeout raw) 2 \<and>
        takes (cfg_proxy_timeout c) (raw_proxy_timeout raw) 10 \<and>
        takes (cfg_stream_timeout c) (raw_stream_timeout raw) 300)" (is "?config \<longleftrightarrow> ?given")
proof
  show "?config \<Longrightarrow> ?given" by (auto simp: file_settings_iff with_defaults_iff verbosity_levels)
  assume ?given
  then obtain raw s where "from_toml text = Some raw" "raw_description_url raw = Some s"
    "url_parse ops s = Some (cfg_description_url c)"
    "map_option parse_socket_addr (raw_proxy raw) = map_option Some (cfg_proxy c)"
    and rest: "takes (cfg_period c) (raw_period raw) 895" "cfg_broadcast_iface c = raw_iface raw"
      "cfg_verbose c = [Warn, Info, Debug, Trace] ! min (case raw_verbose raw of None \<Rightarrow> 0 | Some v \<Rightarrow> v) 3"
      "cfg_wait c = raw_wait raw" "takes (cfg_connect_timeout c) (raw_connect_timeout raw) 2"
      "takes (cfg_proxy_timeout c) (raw_proxy_timeout raw) 10" "takes (cfg_stream_timeout c) (raw_stream_timeout raw) 300"
    by blast
  then have "file_settings ops from_toml text = Inr \<lparr>set_description_url = cfg_description_url c,
      set_period = raw_period raw, set_proxy = cfg_proxy c,
      set_iface = raw_iface raw, set_verbose = raw_verbose raw, set_wait = raw_wait raw,
      set_connect_timeout = raw_connect_timeout raw, set_proxy_timeout = raw_proxy_timeout raw,
      set_stream_timeout = raw_stream_timeout raw\<rparr>" unfolding file_settings_iff by blast
  with rest show ?config by (auto simp: with_defaults_iff verbosity_levels)
qed

text \<open>C36. Every setting is taken from where it is given, or the configuration is refused. With no file
  named, that is the command line, which has to name a description URL; with a file, it is the file
  alone, which has to be readable and to parse, with a URL that parses and, if it gives a proxy, one
  that is a socket address; the first of these that fails is the error. The URL, the proxy, the
  interface and the waiting time are then the ones given; the period and the connect, proxy and stream
  timeouts are the ones given or 895, 2, 10 and 300 seconds; and the verbosity, 0 when none is given, is
  one of four levels, the last for 3 and above.\<close>

theorem config_complete_or_refused:
  "(get_config ops read_file from_toml args = Inr c \<longleftrightarrow>
      (case arg_config args of
         None \<Rightarrow>
           arg_description_url args = Some (cfg_description_url c) \<and> cfg_proxy c = arg_proxy args \<and>
           takes (cfg_period c) (arg_interval args) 895 \<and> cfg_broadcast_iface c = arg_iface args \<and>
           cfg_verbose c = [Warn, Info, Debug, Trace] ! min (arg_verbose args) 3 \<and> cfg_wait c = arg_wait args \<and>
           takes (cfg_connect_timeout c) (arg_connect_timeout args) 2 \<and>
           takes (cfg_proxy_timeout c) (arg_proxy_timeout args) 10 \<and>
           takes (cfg_stream_timeout c) (arg_stream_timeout args) 300
       | Some file \<Rightarrow>
           (\<exists>text raw s. read_file file = Some text \<and> from_toml text = Some raw \<and>
              raw_description_url raw = Some s \<and> url_parse ops s = Some (cfg_description_url c) \<and>
              map_option parse_socket_addr (raw_proxy raw) = map_option Some (cfg_proxy c) \<and>
              takes (cfg_period c) (raw_period raw) 895 \<and> cfg_broadcast_iface c = raw_iface raw \<and>
              cfg_verbose c = [Warn, Info, Debug, Trace] ! min (case raw_verbose raw of None \<Rightarrow> 0 | Some v \<Rightarrow> v) 3 \<and>
              cfg_wait c = raw_wait raw \<and>
              takes (cfg_connect_timeout c) (raw_connect_timeout raw) 2 \<and>
              takes (cfg_proxy_timeout c) (raw_proxy_timeout raw) 10 \<and>
              takes (cfg_stream_timeout c) (raw_stream_timeout raw) 300))) \<and>
   (get_config ops read_file from_toml args = Inl err \<longleftrightarrow>
      (case arg_config args of
         None \<Rightarrow> arg_description_url args = None \<and> err = Context ''Missing description URL''
       | Some file \<Rightarrow>
           (case read_file file of
              None \<Rightarrow> err = Context ''Could not open/read config file.''
            | Some text \<Rightarrow>
                (case from_toml text of
                   None \<Rightarrow> err = Context ''failed to parse config file.''
                 | Some raw \<Rightarrow>
                     (case raw_description_url raw of
                        None \<Rightarrow> err = Context ''Missing description URL''
                      | Some s \<Rightarrow>
                          url_parse ops s = None \<and> err = Context ''Bad description URL.'' \<or>
                          url_parse ops s \<noteq> None \<and> map_option parse_socket_addr (raw_proxy raw) = Some None \<and>
                            err = Context ''Bad proxy address'')))))"
proof (cases "arg_config args")
  case None
  then show ?thesis
    by (auto simp: get_config_def map_sum_iff with_defaults_iff command_line_settings_def verbosity_levels
        split: option.splits)
next
  case path: (Some path)
  show ?thesis
  proof (cases "read_file path")
    case None
    with path show ?thesis by (auto simp: get_config_def)
  next
    case (Some content)
    show ?thesis
      unfolding get_config_def path Some option.case map_sum_iff file_config_iff file_settings_error by simp
  qed
qed

text \<open>So a file that says what a command line says gives the same configuration.\<close>

definition as_file :: "'url url_ops \<Rightarrow> 'url command_line_conf \<Rightarrow> raw_config" where
  "as_file ops args =
     \<lparr>raw_description_url = map_option (url_str ops) (arg_description_url args), raw_period = arg_interval args,
      raw_proxy = map_option format_socket_addr (arg_proxy args), raw_verbose = Some (arg_verbose args),
      raw_iface = arg_iface args, raw_wait = arg_wait args, raw_connect_timeout = arg_connect_timeout args,
      raw_proxy_timeout = arg_proxy_timeout args, raw_stream_timeout = arg_stream_timeout args\<rparr>"

lemma file_like_command_line:
  assumes "arg_config args = Some file" and "read_file file = Some text"
    and "from_toml text = Some (as_file ops args)"
    and "\<forall>u \<in> set_option (arg_description_url args). url_parse ops (url_str ops u) = Some u"
    and "\<forall>a \<in> set_option (arg_proxy args). addr_ok a"
  shows "get_config ops read_file from_toml args =
    get_config ops read_file from_toml (args\<lparr>arg_config := None\<rparr>)"
proof -
  have "file_proxy (as_file ops args) = Inr (arg_proxy args)"
    using assms(5) socket_addr_roundtrip
    by (auto simp: file_proxy_def as_file_def split: option.splits)
  moreover have "file_url ops (as_file ops args) =
      (case arg_description_url args of None \<Rightarrow> Inl (Context ''Missing description URL'') | Some u \<Rightarrow> Inr u)"
    using assms(4) by (auto simp: file_url_def as_file_def split: option.splits)
  ultimately show ?thesis
    using assms(1-3)
    by (simp add: get_config_def file_settings_def command_line_settings_def split: option.splits)
      (simp add: as_file_def)
qed

definition sample_raw :: raw_config where
  "sample_raw = \<lparr>raw_description_url = Some ''srv'', raw_period = None,
     raw_proxy = Some ''10.0.0.1:8200'', raw_verbose = Some 1, raw_iface = None, raw_wait = None,
     raw_connect_timeout = None, raw_proxy_timeout = None, raw_stream_timeout = None\<rparr>"

text \<open>The text of an address as a URL's host: the library prints an IPv4 address as the standard
  library does, and an IPv6 address in brackets in one of its textual forms.\<close>

fun host_literal :: "ip_addr \<Rightarrow> bytes \<Rightarrow> bool" where
  "host_literal (V4 a b c d) h \<longleftrightarrow> h = format_v4 a b c d"
| "host_literal (V6 segs) h \<longleftrightarrow>
     (\<exists>t. h = ''['' @ t @ '']'' \<and> (\<forall>s. read_ipv6_addr (t @ '']'' @ s) = Some (segs, '']'' @ s)))"

lemma host_literal_V6: "length segs = 8 \<Longrightarrow> host_literal (V6 segs) (''['' @ format_v6 segs @ '']'')"
  by (auto simp: address_end_def read_ipv6_format intro!: exI [of _ "format_v6 segs"])

lemma parse_host_literal:
  assumes "host_literal i h"
  shows "parse_socket_addr (h @ CHR '':'' # format_word p) = Some (SocketAddr i p 0)"
proof (cases i)
  case (V4 a b c d)
  with assms show ?thesis
    by (simp add: parse_socket_addr_def read_socket_addr_v4_def read_ipv4_format read_port_format)
next
  case (V6 segs)
  with assms obtain t where t: "h = ''['' @ t @ '']''"
    "\<And>s. read_ipv6_addr (t @ '']'' @ s) = Some (segs, '']'' @ s)" by auto
  then show ?thesis
    using V6 t(2) [of "CHR '':'' # format_word p"]
    by (simp add: parse_socket_addr_def v6_no_v4 read_socket_addr_v6_def no_scope read_port_format)
qed

text \<open>A URL whose host is an address, IPv4 or IPv6, resolves to exactly that address and port,
  without the name resolver.\<close>

lemma sockaddr_from_literal:
  assumes "url_host ops u = Some h" and "host_literal i h" and "url_port ops u = Some p"
  shows "sockaddr_from_url ops lookup_host u = Inr (SocketAddr i p 0)"
  using assms parse_host_literal [OF assms(2), of p]
  by (simp add: sockaddr_from_url_def to_socket_addrs_def)

text \<open>C37. Every socket address, IPv4 or IPv6, with compressed zeros, an embedded IPv4 address or a
  scope, written in the configuration file as the program prints it is read as that address.\<close>

theorem proxy_setting_roundtrip:
  assumes "addr_ok a" and "raw_proxy raw = Some (format_socket_addr a)"
  shows "file_proxy raw = Inr (Some a)"
  using assms socket_addr_roundtrip [OF assms(1)] by (simp add: file_proxy_def)

theorem proxy_setting_roundtrip_witness:
  "file_proxy (sample_raw\<lparr>raw_proxy := Some ''[fe80::1ff:0:0:4a%3]:8200''\<rparr>) =
     Inr (Some (SocketAddr (V6 [0xfe80, 0, 0, 0, 0x1ff, 0, 0, 0x4a]) 8200 3))"
proof (rule proxy_setting_roundtrip)
  show "raw_proxy (sample_raw\<lparr>raw_proxy := Some ''[fe80::1ff:0:0:4a%3]:8200''\<rparr>) =
      Some (format_socket_addr (SocketAddr (V6 [0xfe80, 0, 0, 0, 0x1ff, 0, 0, 0x4a]) 8200 3))"
    by code_simp
qed simp

end
