(* ===== verification/App.thy ===== *)
theory App
  imports Ending Text Ssdp Config
begin

section \<open>The program (main.rs)\<close>

text \<open>
  \<open>main\<close> puts the parts together: the configuration, the TCP proxy when one is configured, with
  the description URL moved to the proxy's address, and the SSDP manager for that URL. The result
  is the error it returns, a panic of an \<^verbatim>\<open>unwrap\<close>, or the parts that run.
\<close>

record world =
  read_file :: "bytes \<Rightarrow> bytes option"
  from_toml :: "bytes \<Rightarrow> raw_config option"
  lookup_host :: "bytes \<Rightarrow> 16 word \<Rightarrow> socket_addr list option"
  bind_error :: "bytes option"
  client_ok :: bool
  sock_fails :: "sock_op \<Rightarrow> bool"

record tcp_side =
  tcp :: tcp_proxy
  listening :: listener
  forward_to :: socket_addr
  bound_to :: socket_addr

record app =
  level :: level_filter
  tcp_part :: "tcp_side option"
  manager :: ssdp_manager
  wait_mode :: bool

datatype outcome =
    Failed failure
  | UnwrapPanic
  | Runs app

text \<open>The proxy part of \<open>main\<close>: the TCP side and the URL to advertise.\<close>

definition set_up_proxy ::
    "'url url_ops \<Rightarrow> world \<Rightarrow> 'url config \<Rightarrow> socket_addr \<Rightarrow> (outcome + tcp_side \<times> 'url)" where
  "set_up_proxy ops w config proxy_addr =
     (let url = cfg_description_url config
      in case sockaddr_from_url ops (lookup_host w) url of
           Inl err \<Rightarrow> Inl (Failed err)
         | Inr server_addr \<Rightarrow>
             (case Option.bind (url_set_ip_host ops (ip proxy_addr) url)
                     (url_set_port ops (port proxy_addr)) of
                None \<Rightarrow> Inl UnwrapPanic
              | Some url \<Rightarrow>
                  (let proxy = tcp_proxy_new (cfg_proxy_timeout config) (cfg_stream_timeout config)
                                 server_addr proxy_addr
                   in case start (bind_error w) proxy of
                        Inl err \<Rightarrow> Inl (Failed (Io err))
                      | Inr l \<Rightarrow>
                          Inr (\<lparr>tcp = proxy, listening = l, forward_to = server_addr,
                                bound_to = proxy_addr\<rparr>, url))))"

definition set_up_ssdp ::
    "'url url_ops \<Rightarrow> world \<Rightarrow> 'url config \<Rightarrow> tcp_side option \<Rightarrow> 'url \<Rightarrow> outcome" where
  "set_up_ssdp ops w config t url =
     (case ssdp_manager_new (client_ok w) (sock_fails w) (url_str ops url) (cfg_period config)
             (cfg_broadcast_iface config) of
        Inl err \<Rightarrow> Failed err
      | Inr m \<Rightarrow>
          Runs \<lparr>level = cfg_verbose config, tcp_part = t, manager = m,
                wait_mode = (cfg_wait config \<noteq> None)\<rparr>)"

definition main :: "'url url_ops \<Rightarrow> world \<Rightarrow> 'url command_line_conf \<Rightarrow> outcome" where
  "main ops w args =
     (case get_config ops (read_file w) (from_toml w) args of
        Inl err \<Rightarrow> Failed err
      | Inr config \<Rightarrow>
          (case cfg_proxy config of
             None \<Rightarrow> set_up_ssdp ops w config None (cfg_description_url config)
           | Some proxy_addr \<Rightarrow>
               (case set_up_proxy ops w config proxy_addr of
                  Inl failed \<Rightarrow> failed
                | Inr (t, url) \<Rightarrow> set_up_ssdp ops w config (Some t) url)))"

subsection \<open>What the URL library promises\<close>

text \<open>Setting an address as the host and a port succeeds on a URL that has a host and a port, and the
  result has them.\<close>

definition url_ops_ok :: "'url url_ops \<Rightarrow> bool" where
  "url_ops_ok ops \<longleftrightarrow>
     (\<forall>u a p. url_host ops u \<noteq> None \<longrightarrow> url_port ops u \<noteq> None \<longrightarrow> addr_ok (SocketAddr a p 0) \<longrightarrow>
        (\<exists>u1 u2 h. url_set_ip_host ops a u = Some u1 \<and> url_set_port ops p u1 = Some u2 \<and>
           url_host ops u2 = Some h \<and> host_literal a h \<and> url_port ops u2 = Some p))"

lemma host_text_literal: "addr_ok (SocketAddr a p 0) \<Longrightarrow> host_literal a (host_text a)"
  using host_literal_V6 by (cases a) (simp_all del: host_literal.simps(2))

lemma pair_ops_ok: "url_ops_ok pair_ops"
  using host_text_literal by (fastforce simp: url_ops_ok_def pair_ops_def)

lemma sockaddr_has_host:
  "sockaddr_from_url ops lh u = Inr a \<Longrightarrow> url_host ops u \<noteq> None \<and> url_port ops u \<noteq> None"
  by (auto simp: sockaddr_from_url_def split: option.splits)

lemma manager_url:
  "ssdp_manager_new c f url period iface = Inr m \<Longrightarrow>
   broadcast_period m = period \<and> interactive m = interactive_new url (cache_max_age_for period)"
  by (auto simp: ssdp_manager_new_def split: if_splits option.splits)

subsection \<open>What is advertised\<close>

text \<open>In proxy mode, on an IPv4 or IPv6 address, when the program runs, the advertised description URL is the
  configured one moved to the proxy's address: a control point that follows it connects to the
  address the proxy is bound to, the proxy forwards to the address the configured URL resolves to,
  and it rewrites that address's URLs into its own.\<close>

lemma advertised_location:
  assumes "url_ops_ok ops" and "main ops w args = Runs r"
    and "get_config ops (read_file w) (from_toml w) args = Inr config"
    and "cfg_proxy config = Some (SocketAddr a p scope)" and "addr_ok (SocketAddr a p 0)"
  shows "\<exists>t url. tcp_part r = Some t \<and> bound_to t = SocketAddr a p scope \<and>
    sockaddr_from_url ops (lookup_host w) (cfg_description_url config) = Inr (forward_to t) \<and>
    origin_url_base (tcp t) = url_base (forward_to t) \<and> proxy_url_base (tcp t) = url_base (bound_to t) \<and>
    remote_desc_url (interactive (manager r)) = url_str ops url \<and>
    sockaddr_from_url ops (lookup_host w) url = Inr (SocketAddr a p 0)"
proof -
  let ?u = "cfg_description_url config" and ?p = "SocketAddr a p scope"
  from assms(2-4) obtain t url where t: "set_up_proxy ops w config ?p = Inr (t, url)"
    and m: "set_up_ssdp ops w config (Some t) url = Runs r"
    by (cases "set_up_proxy ops w config ?p")
       (auto simp: main_def set_up_proxy_def Let_def split: sum.splits option.splits)
  from t obtain server where s: "sockaddr_from_url ops (lookup_host w) ?u = Inr server"
    by (auto simp: set_up_proxy_def Let_def split: sum.splits)
  from sockaddr_has_host [OF s] assms(1,5) obtain u1 u2 h where
    u: "url_set_ip_host ops a ?u = Some u1" "url_set_port ops p u1 = Some u2"
      "url_host ops u2 = Some h" "host_literal a h" "url_port ops u2 = Some p"
    unfolding url_ops_ok_def by blast
  from t s u have "url = u2" "t = \<lparr>tcp = tcp_proxy_new (cfg_proxy_timeout config)
      (cfg_stream_timeout config) server ?p, listening = listener_init, forward_to = server, bound_to = ?p\<rparr>"
    by (auto simp: set_up_proxy_def Let_def start_def split: option.splits)
  moreover from m have "tcp_part r = Some t" "remote_desc_url (interactive (manager r)) = url_str ops url"
    by (auto simp: set_up_ssdp_def interactive_new_def dest!: manager_url split: sum.splits)
  ultimately show ?thesis using s sockaddr_from_literal [OF u(3-5), of "lookup_host w"]
    by (intro exI [of _ t] exI [of _ u2]) (simp add: tcp_proxy_new_def)
qed

text \<open>A machine where every call succeeds.\<close>

definition sample_world :: world where
  "sample_world = \<lparr>read_file = (\<lambda>_. None), from_toml = (\<lambda>_. None),
     lookup_host = (\<lambda>_ _. Some [SocketAddr (V4 10 0 0 2) 80 0]), bind_error = None, client_ok = True,
     sock_fails = (\<lambda>_. False)\<rparr>"

definition proxy_args :: "(bytes \<times> 16 word) command_line_conf" where
  "proxy_args = no_args\<lparr>arg_proxy := Some (SocketAddr (V4 10 0 0 1) 8200 0)\<rparr>"

end
