(* ===== verification/Process.thy ===== *)
theory Process
  imports App
begin

section \<open>The running process\<close>






subsection \<open>Property\<close>



end
