(* ===== verification/ParserTests.thy ===== *)
theory ParserTests
  imports Listener
begin

section \<open>The unit tests of what is parsed\<close>

text \<open>
  Evidence that the model is the program's: the unit tests of \<^verbatim>\<open>listener.rs\<close> and \<^verbatim>\<open>utils.rs\<close> that are about
  this program, each translated as it is written, over the HTTP and the XML parser as parameters, pass
  with every parser that keeps its contract (theories \<open>Request\<close> and \<open>Description\<close>). The two tests of input
  that is not a request (an empty buffer, garbage) test the parser alone and are left out.
\<close>

subsection \<open>listener.rs\<close>

definition test_parse_ssdp_msearch_ssdp_all :: "httparse \<Rightarrow> bool" where
  "test_parse_ssdp_msearch_ssdp_all httparse \<longleftrightarrow>
     (let packet =
        ''M-SEARCH * HTTP/1.1'' @ CRLF @
        ''HOST: 239.255.255.250:1900'' @ CRLF @
        ''MAN: '' @ [CHR 0x22] @ ''ssdp:discover'' @ [CHR 0x22] @ CRLF @
        ''MX: 3'' @ CRLF @
        ''ST: ssdp:all'' @ CRLF @ CRLF
      in case parse_ssdp httparse packet of
           Parsed ssdp_method headers \<Rightarrow>
             ssdp_method = ''M-SEARCH'' \<and>
             headers ''ST'' = Some ''ssdp:all''
         | _ \<Rightarrow> False)"

definition test_parse_ssdp_msearch_mediaserver :: "httparse \<Rightarrow> bool" where
  "test_parse_ssdp_msearch_mediaserver httparse \<longleftrightarrow>
     (let packet =
        ''M-SEARCH * HTTP/1.1'' @ CRLF @
        ''HOST: 239.255.255.250:1900'' @ CRLF @
        ''MAN: '' @ [CHR 0x22] @ ''ssdp:discover'' @ [CHR 0x22] @ CRLF @
        ''MX: 3'' @ CRLF @
        ''ST: urn:schemas-upnp-org:device:MediaServer:1'' @ CRLF @ CRLF
      in case parse_ssdp httparse packet of
           Parsed ssdp_method headers \<Rightarrow>
             ssdp_method = ''M-SEARCH'' \<and>
             headers ''ST'' = Some ''urn:schemas-upnp-org:device:MediaServer:1''
         | _ \<Rightarrow> False)"

definition test_parse_ssdp_msearch_rootdevice :: "httparse \<Rightarrow> bool" where
  "test_parse_ssdp_msearch_rootdevice httparse \<longleftrightarrow>
     (let packet =
        ''M-SEARCH * HTTP/1.1'' @ CRLF @
        ''HOST: 239.255.255.250:1900'' @ CRLF @
        ''MAN: '' @ [CHR 0x22] @ ''ssdp:discover'' @ [CHR 0x22] @ CRLF @
        ''MX: 3'' @ CRLF @
        ''ST: upnp:rootdevice'' @ CRLF @ CRLF
      in case parse_ssdp httparse packet of
           Parsed ssdp_method headers \<Rightarrow>
             ssdp_method = ''M-SEARCH'' \<and>
             headers ''ST'' = Some ''upnp:rootdevice''
         | _ \<Rightarrow> False)"

definition test_parse_ssdp_extracts_man_header :: "httparse \<Rightarrow> bool" where
  "test_parse_ssdp_extracts_man_header httparse \<longleftrightarrow>
     (let packet =
        ''M-SEARCH * HTTP/1.1'' @ CRLF @
        ''HOST: 239.255.255.250:1900'' @ CRLF @
        ''MAN: '' @ [CHR 0x22] @ ''ssdp:discover'' @ [CHR 0x22] @ CRLF @
        ''ST: ssdp:all'' @ CRLF @ CRLF
      in case parse_ssdp httparse packet of
           Parsed ssdp_method headers \<Rightarrow>
             headers ''MAN'' = Some ([CHR 0x22] @ ''ssdp:discover'' @ [CHR 0x22])
         | _ \<Rightarrow> False)"

definition test_parse_ssdp_extracts_host_header :: "httparse \<Rightarrow> bool" where
  "test_parse_ssdp_extracts_host_header httparse \<longleftrightarrow>
     (let packet =
        ''M-SEARCH * HTTP/1.1'' @ CRLF @
        ''HOST: 239.255.255.250:1900'' @ CRLF @
        ''ST: ssdp:all'' @ CRLF @ CRLF
      in case parse_ssdp httparse packet of
           Parsed ssdp_method headers \<Rightarrow>
             headers ''HOST'' = Some ''239.255.255.250:1900''
         | _ \<Rightarrow> False)"

definition test_parse_ssdp_extracts_mx_header :: "httparse \<Rightarrow> bool" where
  "test_parse_ssdp_extracts_mx_header httparse \<longleftrightarrow>
     (let packet =
        ''M-SEARCH * HTTP/1.1'' @ CRLF @
        ''HOST: 239.255.255.250:1900'' @ CRLF @
        ''MX: 5'' @ CRLF @
        ''ST: ssdp:all'' @ CRLF @ CRLF
      in case parse_ssdp httparse packet of
           Parsed ssdp_method headers \<Rightarrow>
             headers ''MX'' = Some ''5''
         | _ \<Rightarrow> False)"

definition test_parse_ssdp_normalizes_headers_to_uppercase :: "httparse \<Rightarrow> bool" where
  "test_parse_ssdp_normalizes_headers_to_uppercase httparse \<longleftrightarrow>
     (let packet =
        ''M-SEARCH * HTTP/1.1'' @ CRLF @
        ''host: 239.255.255.250:1900'' @ CRLF @
        ''man: '' @ [CHR 0x22] @ ''ssdp:discover'' @ [CHR 0x22] @ CRLF @
        ''st: ssdp:all'' @ CRLF @ CRLF
      in case parse_ssdp httparse packet of
           Parsed ssdp_method headers \<Rightarrow>
             headers ''HOST'' \<noteq> None \<and>
             headers ''MAN'' \<noteq> None \<and>
             headers ''ST'' \<noteq> None
         | _ \<Rightarrow> False)"

definition test_parse_ssdp_mixed_case_headers :: "httparse \<Rightarrow> bool" where
  "test_parse_ssdp_mixed_case_headers httparse \<longleftrightarrow>
     (let packet =
        ''M-SEARCH * HTTP/1.1'' @ CRLF @
        ''Host: 239.255.255.250:1900'' @ CRLF @
        ''Man: '' @ [CHR 0x22] @ ''ssdp:discover'' @ [CHR 0x22] @ CRLF @
        ''St: ssdp:all'' @ CRLF @ CRLF
      in case parse_ssdp httparse packet of
           Parsed ssdp_method headers \<Rightarrow>
             headers ''HOST'' \<noteq> None \<and>
             headers ''MAN'' \<noteq> None \<and>
             headers ''ST'' \<noteq> None
         | _ \<Rightarrow> False)"

definition test_parse_ssdp_incomplete_request :: "httparse \<Rightarrow> bool" where
  "test_parse_ssdp_incomplete_request httparse \<longleftrightarrow>
     parse_ssdp httparse (''M-SEARCH * HTTP/1.1'' @ CRLF) \<noteq> IndexPanic"

subsection \<open>utils.rs\<close>

definition test_parse_dlna_description_basic :: "xml_parser \<Rightarrow> bool" where
  "test_parse_dlna_description_basic parser \<longleftrightarrow>
     (let xml =
        ''<?xml version='' @ [CHR 0x22] @ ''1.0'' @ [CHR 0x22] @ ''?>'' @ [LF] @
        ''<root xmlns='' @ [CHR 0x22] @ ''urn:schemas-upnp-org:device-1-0'' @ [CHR 0x22] @ ''>'' @ [LF] @
        ''    <device>'' @ [LF] @
        ''        <deviceType>urn:schemas-upnp-org:device:MediaServer:1</deviceType>'' @ [LF] @
        ''        <UDN>uuid:4d696e69-444c-164e-9d41-ecf4bb8d1234</UDN>'' @ [LF] @
        ''    </device>'' @ [LF] @
        ''</root>''
      in case from_str parser xml of
           Some desc \<Rightarrow>
             device_type_of (device_of desc) = ''urn:schemas-upnp-org:device:MediaServer:1'' \<and>
             udn_of (device_of desc) = ''uuid:4d696e69-444c-164e-9d41-ecf4bb8d1234''
         | None \<Rightarrow> False)"

definition test_parse_dlna_description_with_extra_fields :: "xml_parser \<Rightarrow> bool" where
  "test_parse_dlna_description_with_extra_fields parser \<longleftrightarrow>
     (let xml =
        ''<?xml version='' @ [CHR 0x22] @ ''1.0'' @ [CHR 0x22] @ ''?>'' @ [LF] @
        ''<root xmlns='' @ [CHR 0x22] @ ''urn:schemas-upnp-org:device-1-0'' @ [CHR 0x22] @ ''>'' @ [LF] @
        ''    <specVersion>'' @ [LF] @
        ''        <major>1</major>'' @ [LF] @
        ''        <minor>0</minor>'' @ [LF] @
        ''    </specVersion>'' @ [LF] @
        ''    <device>'' @ [LF] @
        ''        <deviceType>urn:schemas-upnp-org:device:MediaServer:1</deviceType>'' @ [LF] @
        ''        <friendlyName>My Media Server</friendlyName>'' @ [LF] @
        ''        <manufacturer>Test Company</manufacturer>'' @ [LF] @
        ''        <modelName>Test Model</modelName>'' @ [LF] @
        ''        <modelNumber>1.0</modelNumber>'' @ [LF] @
        ''        <UDN>uuid:test-device-udn</UDN>'' @ [LF] @
        ''        <serviceList>'' @ [LF] @
        ''            <service>'' @ [LF] @
        ''                <serviceType>urn:schemas-upnp-org:service:ContentDirectory:1</serviceType>'' @ [LF] @
        ''            </service>'' @ [LF] @
        ''        </serviceList>'' @ [LF] @
        ''    </device>'' @ [LF] @
        ''</root>''
      in case from_str parser xml of
           Some desc \<Rightarrow>
             device_type_of (device_of desc) = ''urn:schemas-upnp-org:device:MediaServer:1'' \<and>
             udn_of (device_of desc) = ''uuid:test-device-udn''
         | None \<Rightarrow> False)"

definition test_parse_dlna_description_minimal :: "xml_parser \<Rightarrow> bool" where
  "test_parse_dlna_description_minimal parser \<longleftrightarrow>
     (let xml =
        ''<root>'' @ [LF] @
        ''    <device>'' @ [LF] @
        ''        <deviceType>urn:schemas-upnp-org:device:MediaRenderer:1</deviceType>'' @ [LF] @
        ''        <UDN>uuid:minimal-device</UDN>'' @ [LF] @
        ''    </device>'' @ [LF] @
        ''</root>''
      in case from_str parser xml of
           Some desc \<Rightarrow>
             device_type_of (device_of desc) = ''urn:schemas-upnp-org:device:MediaRenderer:1'' \<and>
             udn_of (device_of desc) = ''uuid:minimal-device''
         | None \<Rightarrow> False)"

definition test_parse_dlna_description_missing_device_type :: "xml_parser \<Rightarrow> bool" where
  "test_parse_dlna_description_missing_device_type parser \<longleftrightarrow>
     (let xml =
        ''<root>'' @ [LF] @
        ''    <device>'' @ [LF] @
        ''        <UDN>uuid:test-device</UDN>'' @ [LF] @
        ''    </device>'' @ [LF] @
        ''</root>''
      in Option.is_none (from_str parser xml))"

definition test_parse_dlna_description_missing_udn :: "xml_parser \<Rightarrow> bool" where
  "test_parse_dlna_description_missing_udn parser \<longleftrightarrow>
     (let xml =
        ''<root>'' @ [LF] @
        ''    <device>'' @ [LF] @
        ''        <deviceType>urn:schemas-upnp-org:device:MediaServer:1</deviceType>'' @ [LF] @
        ''    </device>'' @ [LF] @
        ''</root>''
      in Option.is_none (from_str parser xml))"

definition test_parse_dlna_description_missing_device :: "xml_parser \<Rightarrow> bool" where
  "test_parse_dlna_description_missing_device parser \<longleftrightarrow>
     (let xml =
        ''<root>'' @ [LF] @
        ''</root>''
      in Option.is_none (from_str parser xml))"

definition description_tests :: "(xml_parser \<Rightarrow> bool) list" where
  "description_tests =
     [test_parse_dlna_description_basic,
      test_parse_dlna_description_with_extra_fields,
      test_parse_dlna_description_minimal,
      test_parse_dlna_description_missing_device_type,
      test_parse_dlna_description_missing_udn,
      test_parse_dlna_description_missing_device]"

definition listener_tests :: "(httparse \<Rightarrow> bool) list" where
  "listener_tests =
     [test_parse_ssdp_msearch_ssdp_all,
      test_parse_ssdp_msearch_mediaserver,
      test_parse_ssdp_msearch_rootdevice,
      test_parse_ssdp_extracts_man_header,
      test_parse_ssdp_extracts_host_header,
      test_parse_ssdp_extracts_mx_header,
      test_parse_ssdp_normalizes_headers_to_uppercase,
      test_parse_ssdp_mixed_case_headers,
      test_parse_ssdp_incomplete_request]"

subsection \<open>Every parser that keeps its contract makes them pass\<close>

lemma parse_search:
  assumes "httparse_ok httparse" and "list_all field_ok fs" and "length fs < 16"
    and "packet = http_request ''M-SEARCH'' ''*'' fs"
  shows "parse_ssdp httparse packet = Parsed ''M-SEARCH'' (request_headers fs)"
proof -
  have "token ''M-SEARCH''" "target ''*''" by code_simp+
  with assms(2) have "request_ok ''M-SEARCH'' ''*'' fs" by (simp add: request_ok_def)
  from parse_ssdp_request [OF assms(1) this, of "[]"] assms(3,4) show ?thesis by simp
qed

definition msearch_ssdp_all_fields :: "header_field list" where
  "msearch_ssdp_all_fields =
     [(''HOST'', '' '', ''239.255.255.250:1900''),
      (''MAN'', '' '', [CHR 0x22] @ ''ssdp:discover'' @ [CHR 0x22]),
      (''MX'', '' '', ''3''),
      (''ST'', '' '', ''ssdp:all'')]"

lemma msearch_ssdp_all:
  assumes "httparse_ok httparse"
  shows "test_parse_ssdp_msearch_ssdp_all httparse"
proof -
  have ok: "list_all field_ok msearch_ssdp_all_fields" and headers: "request_headers msearch_ssdp_all_fields ''ST'' = Some ''ssdp:all''"
    by code_simp+
  show ?thesis
    unfolding test_parse_ssdp_msearch_ssdp_all_def Let_def
    by (subst parse_search [OF assms ok])
      (simp_all add: headers del: not_None_eq, simp_all add: msearch_ssdp_all_fields_def http_request_def field_line_def)
qed

definition msearch_mediaserver_fields :: "header_field list" where
  "msearch_mediaserver_fields =
     [(''HOST'', '' '', ''239.255.255.250:1900''),
      (''MAN'', '' '', [CHR 0x22] @ ''ssdp:discover'' @ [CHR 0x22]),
      (''MX'', '' '', ''3''),
      (''ST'', '' '', ''urn:schemas-upnp-org:device:MediaServer:1'')]"

lemma msearch_mediaserver:
  assumes "httparse_ok httparse"
  shows "test_parse_ssdp_msearch_mediaserver httparse"
proof -
  have ok: "list_all field_ok msearch_mediaserver_fields" and headers: "request_headers msearch_mediaserver_fields ''ST'' = Some ''urn:schemas-upnp-org:device:MediaServer:1''"
    by code_simp+
  show ?thesis
    unfolding test_parse_ssdp_msearch_mediaserver_def Let_def
    by (subst parse_search [OF assms ok])
      (simp_all add: headers del: not_None_eq, simp_all add: msearch_mediaserver_fields_def http_request_def field_line_def)
qed

definition msearch_rootdevice_fields :: "header_field list" where
  "msearch_rootdevice_fields =
     [(''HOST'', '' '', ''239.255.255.250:1900''),
      (''MAN'', '' '', [CHR 0x22] @ ''ssdp:discover'' @ [CHR 0x22]),
      (''MX'', '' '', ''3''),
      (''ST'', '' '', ''upnp:rootdevice'')]"

lemma msearch_rootdevice:
  assumes "httparse_ok httparse"
  shows "test_parse_ssdp_msearch_rootdevice httparse"
proof -
  have ok: "list_all field_ok msearch_rootdevice_fields" and headers: "request_headers msearch_rootdevice_fields ''ST'' = Some ''upnp:rootdevice''"
    by code_simp+
  show ?thesis
    unfolding test_parse_ssdp_msearch_rootdevice_def Let_def
    by (subst parse_search [OF assms ok])
      (simp_all add: headers del: not_None_eq, simp_all add: msearch_rootdevice_fields_def http_request_def field_line_def)
qed

definition extracts_man_header_fields :: "header_field list" where
  "extracts_man_header_fields =
     [(''HOST'', '' '', ''239.255.255.250:1900''),
      (''MAN'', '' '', [CHR 0x22] @ ''ssdp:discover'' @ [CHR 0x22]),
      (''ST'', '' '', ''ssdp:all'')]"

lemma extracts_man_header:
  assumes "httparse_ok httparse"
  shows "test_parse_ssdp_extracts_man_header httparse"
proof -
  have ok: "list_all field_ok extracts_man_header_fields" and headers: "request_headers extracts_man_header_fields ''MAN'' = Some ([CHR 0x22] @ ''ssdp:discover'' @ [CHR 0x22])"
    by code_simp+
  show ?thesis
    unfolding test_parse_ssdp_extracts_man_header_def Let_def
    by (subst parse_search [OF assms ok])
      (simp_all add: headers del: not_None_eq, simp_all add: extracts_man_header_fields_def http_request_def field_line_def)
qed

definition extracts_host_header_fields :: "header_field list" where
  "extracts_host_header_fields =
     [(''HOST'', '' '', ''239.255.255.250:1900''),
      (''ST'', '' '', ''ssdp:all'')]"

lemma extracts_host_header:
  assumes "httparse_ok httparse"
  shows "test_parse_ssdp_extracts_host_header httparse"
proof -
  have ok: "list_all field_ok extracts_host_header_fields" and headers: "request_headers extracts_host_header_fields ''HOST'' = Some ''239.255.255.250:1900''"
    by code_simp+
  show ?thesis
    unfolding test_parse_ssdp_extracts_host_header_def Let_def
    by (subst parse_search [OF assms ok])
      (simp_all add: headers del: not_None_eq, simp_all add: extracts_host_header_fields_def http_request_def field_line_def)
qed

definition extracts_mx_header_fields :: "header_field list" where
  "extracts_mx_header_fields =
     [(''HOST'', '' '', ''239.255.255.250:1900''),
      (''MX'', '' '', ''5''),
      (''ST'', '' '', ''ssdp:all'')]"

lemma extracts_mx_header:
  assumes "httparse_ok httparse"
  shows "test_parse_ssdp_extracts_mx_header httparse"
proof -
  have ok: "list_all field_ok extracts_mx_header_fields" and headers: "request_headers extracts_mx_header_fields ''MX'' = Some ''5''"
    by code_simp+
  show ?thesis
    unfolding test_parse_ssdp_extracts_mx_header_def Let_def
    by (subst parse_search [OF assms ok])
      (simp_all add: headers del: not_None_eq, simp_all add: extracts_mx_header_fields_def http_request_def field_line_def)
qed

definition normalizes_headers_to_uppercase_fields :: "header_field list" where
  "normalizes_headers_to_uppercase_fields =
     [(''host'', '' '', ''239.255.255.250:1900''),
      (''man'', '' '', [CHR 0x22] @ ''ssdp:discover'' @ [CHR 0x22]),
      (''st'', '' '', ''ssdp:all'')]"

lemma normalizes_headers_to_uppercase:
  assumes "httparse_ok httparse"
  shows "test_parse_ssdp_normalizes_headers_to_uppercase httparse"
proof -
  have ok: "list_all field_ok normalizes_headers_to_uppercase_fields" and headers: "request_headers normalizes_headers_to_uppercase_fields ''HOST'' \<noteq> None"
    "request_headers normalizes_headers_to_uppercase_fields ''MAN'' \<noteq> None"
    "request_headers normalizes_headers_to_uppercase_fields ''ST'' \<noteq> None"
    by code_simp+
  show ?thesis
    unfolding test_parse_ssdp_normalizes_headers_to_uppercase_def Let_def
    by (subst parse_search [OF assms ok])
      (simp_all add: headers del: not_None_eq, simp_all add: normalizes_headers_to_uppercase_fields_def http_request_def field_line_def)
qed

definition mixed_case_headers_fields :: "header_field list" where
  "mixed_case_headers_fields =
     [(''Host'', '' '', ''239.255.255.250:1900''),
      (''Man'', '' '', [CHR 0x22] @ ''ssdp:discover'' @ [CHR 0x22]),
      (''St'', '' '', ''ssdp:all'')]"

lemma mixed_case_headers:
  assumes "httparse_ok httparse"
  shows "test_parse_ssdp_mixed_case_headers httparse"
proof -
  have ok: "list_all field_ok mixed_case_headers_fields" and headers: "request_headers mixed_case_headers_fields ''HOST'' \<noteq> None"
    "request_headers mixed_case_headers_fields ''MAN'' \<noteq> None"
    "request_headers mixed_case_headers_fields ''ST'' \<noteq> None"
    by code_simp+
  show ?thesis
    unfolding test_parse_ssdp_mixed_case_headers_def Let_def
    by (subst parse_search [OF assms ok])
      (simp_all add: headers del: not_None_eq, simp_all add: mixed_case_headers_fields_def http_request_def field_line_def)
qed

lemma incomplete_request:
  assumes "httparse_ok httparse"
  shows "test_parse_ssdp_incomplete_request httparse"
  using few_lines_no_panic [OF assms, of "''M-SEARCH * HTTP/1.1'' @ CRLF"]
  by (simp add: test_parse_ssdp_incomplete_request_def)

lemma listener_tests_pass:
  assumes "httparse_ok httparse"
  shows "list_all (\<lambda>test. test httparse) listener_tests"
  by (simp add: listener_tests_def incomplete_request [OF assms]
      msearch_ssdp_all [OF assms]
      msearch_mediaserver [OF assms]
      msearch_rootdevice [OF assms]
      extracts_man_header [OF assms]
      extracts_host_header [OF assms]
      extracts_mx_header [OF assms]
      normalizes_headers_to_uppercase [OF assms]
      mixed_case_headers [OF assms])

definition basic_markup :: markup where
  "basic_markup =
     Markup [LF] ''root'' [(''xmlns'', ''urn:schemas-upnp-org:device-1-0'')] [
       Markup ([LF] @ ''    '') ''device'' [] [
         Markup ([LF] @ ''        '') ''deviceType'' [] [] ''urn:schemas-upnp-org:device:MediaServer:1'',
         Markup ([LF] @ ''        '') ''UDN'' [] [] ''uuid:4d696e69-444c-164e-9d41-ecf4bb8d1234''] ([LF] @ ''    '')] [LF]"

lemma basic_description:
  assumes "xml_ok parser"
  shows "test_parse_dlna_description_basic parser"
proof -
  have ok: "markup_ok basic_markup" and "read_description (tree basic_markup) =
      Some \<lparr>device_of = \<lparr>device_type_of = ''urn:schemas-upnp-org:device:MediaServer:1'', udn_of = ''uuid:4d696e69-444c-164e-9d41-ecf4bb8d1234''\<rparr>\<rparr>"
    by code_simp+
  with from_str_document [OF assms ok, of True] show ?thesis
    by (simp add: test_parse_dlna_description_basic_def basic_markup_def document_def attribute_text_def)
qed

definition with_extra_fields_markup :: markup where
  "with_extra_fields_markup =
     Markup [LF] ''root'' [(''xmlns'', ''urn:schemas-upnp-org:device-1-0'')] [
       Markup ([LF] @ ''    '') ''specVersion'' [] [
         Markup ([LF] @ ''        '') ''major'' [] [] ''1'',
         Markup ([LF] @ ''        '') ''minor'' [] [] ''0''] ([LF] @ ''    ''),
       Markup ([LF] @ ''    '') ''device'' [] [
         Markup ([LF] @ ''        '') ''deviceType'' [] [] ''urn:schemas-upnp-org:device:MediaServer:1'',
         Markup ([LF] @ ''        '') ''friendlyName'' [] [] ''My Media Server'',
         Markup ([LF] @ ''        '') ''manufacturer'' [] [] ''Test Company'',
         Markup ([LF] @ ''        '') ''modelName'' [] [] ''Test Model'',
         Markup ([LF] @ ''        '') ''modelNumber'' [] [] ''1.0'',
         Markup ([LF] @ ''        '') ''UDN'' [] [] ''uuid:test-device-udn'',
         Markup ([LF] @ ''        '') ''serviceList'' [] [
           Markup ([LF] @ ''            '') ''service'' [] [
             Markup ([LF] @ ''                '') ''serviceType'' [] [] ''urn:schemas-upnp-org:service:ContentDirectory:1''] ([LF] @ ''            '')] ([LF] @ ''        '')] ([LF] @ ''    '')] [LF]"

lemma with_extra_fields_description:
  assumes "xml_ok parser"
  shows "test_parse_dlna_description_with_extra_fields parser"
proof -
  have ok: "markup_ok with_extra_fields_markup" and "read_description (tree with_extra_fields_markup) =
      Some \<lparr>device_of = \<lparr>device_type_of = ''urn:schemas-upnp-org:device:MediaServer:1'', udn_of = ''uuid:test-device-udn''\<rparr>\<rparr>"
    by code_simp+
  with from_str_document [OF assms ok, of True] show ?thesis
    by (simp add: test_parse_dlna_description_with_extra_fields_def with_extra_fields_markup_def document_def attribute_text_def)
qed

definition minimal_markup :: markup where
  "minimal_markup =
     Markup [] ''root'' [] [
       Markup ([LF] @ ''    '') ''device'' [] [
         Markup ([LF] @ ''        '') ''deviceType'' [] [] ''urn:schemas-upnp-org:device:MediaRenderer:1'',
         Markup ([LF] @ ''        '') ''UDN'' [] [] ''uuid:minimal-device''] ([LF] @ ''    '')] [LF]"

lemma minimal_description:
  assumes "xml_ok parser"
  shows "test_parse_dlna_description_minimal parser"
proof -
  have ok: "markup_ok minimal_markup" and "read_description (tree minimal_markup) =
      Some \<lparr>device_of = \<lparr>device_type_of = ''urn:schemas-upnp-org:device:MediaRenderer:1'', udn_of = ''uuid:minimal-device''\<rparr>\<rparr>"
    by code_simp+
  with from_str_document [OF assms ok, of False] show ?thesis
    by (simp add: test_parse_dlna_description_minimal_def minimal_markup_def document_def attribute_text_def)
qed

definition missing_device_type_markup :: markup where
  "missing_device_type_markup =
     Markup [] ''root'' [] [
       Markup ([LF] @ ''    '') ''device'' [] [
         Markup ([LF] @ ''        '') ''UDN'' [] [] ''uuid:test-device''] ([LF] @ ''    '')] [LF]"

lemma missing_device_type_description:
  assumes "xml_ok parser"
  shows "test_parse_dlna_description_missing_device_type parser"
proof -
  have ok: "markup_ok missing_device_type_markup" and "read_description (tree missing_device_type_markup) =
      None"
    by code_simp+
  with from_str_document [OF assms ok, of False] show ?thesis
    by (simp add: test_parse_dlna_description_missing_device_type_def missing_device_type_markup_def document_def attribute_text_def)
qed

definition missing_udn_markup :: markup where
  "missing_udn_markup =
     Markup [] ''root'' [] [
       Markup ([LF] @ ''    '') ''device'' [] [
         Markup ([LF] @ ''        '') ''deviceType'' [] [] ''urn:schemas-upnp-org:device:MediaServer:1''] ([LF] @ ''    '')] [LF]"

lemma missing_udn_description:
  assumes "xml_ok parser"
  shows "test_parse_dlna_description_missing_udn parser"
proof -
  have ok: "markup_ok missing_udn_markup" and "read_description (tree missing_udn_markup) =
      None"
    by code_simp+
  with from_str_document [OF assms ok, of False] show ?thesis
    by (simp add: test_parse_dlna_description_missing_udn_def missing_udn_markup_def document_def attribute_text_def)
qed

definition missing_device_markup :: markup where
  "missing_device_markup =
     Markup [] ''root'' [] [] [LF]"

lemma missing_device_description:
  assumes "xml_ok parser"
  shows "test_parse_dlna_description_missing_device parser"
proof -
  have ok: "markup_ok missing_device_markup" and "read_description (tree missing_device_markup) =
      None"
    by code_simp+
  with from_str_document [OF assms ok, of False] show ?thesis
    by (simp add: test_parse_dlna_description_missing_device_def missing_device_markup_def document_def attribute_text_def)
qed

lemma description_tests_pass:
  assumes "xml_ok parser"
  shows "list_all (\<lambda>test. test parser) description_tests"
  by (simp add: description_tests_def
      basic_description [OF assms]
      with_extra_fields_description [OF assms]
      minimal_description [OF assms]
      missing_device_type_description [OF assms]
      missing_udn_description [OF assms]
      missing_device_description [OF assms])

end
