(* ===== verification/SourceTests.thy ===== *)
theory SourceTests
  imports App ParserTests
begin

section \<open>The unit tests of the source\<close>

text \<open>
  Evidence that the model is the program's, and no more: the unit tests of \<^verbatim>\<open>tcp_proxy.rs\<close> and
  \<^verbatim>\<open>packet.rs\<close>, each translated as it is written, pass on the model. A test's reader is a \<^verbatim>\<open>Cursor\<close> and
  its writer a \<^verbatim>\<open>Vec\<close>; the packet tests hold at whatever date they are run. Those of \<^verbatim>\<open>listener.rs\<close> and
  \<^verbatim>\<open>utils.rs\<close> are in \<open>ParserTests\<close>. No other theory uses these.
\<close>

definition cursor :: "bytes \<Rightarrow> conn" where
  "cursor b = \<lparr>segs = [b], fin = Closed, out = [], room = Reads\<rparr>"

definition vec :: conn where
  "vec = \<lparr>segs = [], fin = Closed, out = [], room = Reads\<rparr>"

subsection \<open>tcp\_proxy.rs\<close>

definition test_parse_chunk_size_zero :: bool where
  "test_parse_chunk_size_zero \<longleftrightarrow>
     parse_chunk_size (''0'' @ CRLF) = Inr 0"

definition test_parse_chunk_size_single_digit :: bool where
  "test_parse_chunk_size_single_digit \<longleftrightarrow>
     parse_chunk_size (''a'' @ CRLF) = Inr 10 \<and>
     parse_chunk_size (''f'' @ CRLF) = Inr 15 \<and>
     parse_chunk_size (''5'' @ CRLF) = Inr 5"

definition test_parse_chunk_size_uppercase :: bool where
  "test_parse_chunk_size_uppercase \<longleftrightarrow>
     parse_chunk_size (''A'' @ CRLF) = Inr 10 \<and>
     parse_chunk_size (''FF'' @ CRLF) = Inr 255 \<and>
     parse_chunk_size (''DEADBEEF'' @ CRLF) = Inr 0xDEADBEEF"

definition test_parse_chunk_size_mixed_case :: bool where
  "test_parse_chunk_size_mixed_case \<longleftrightarrow>
     parse_chunk_size (''aB'' @ CRLF) = Inr 0xAB \<and>
     parse_chunk_size (''DeAdBeEf'' @ CRLF) = Inr 0xDEADBEEF"

definition test_parse_chunk_size_with_extension :: bool where
  "test_parse_chunk_size_with_extension \<longleftrightarrow>
     parse_chunk_size (''10;name=value'' @ CRLF) = Inr 16 \<and>
     parse_chunk_size (''ff;ext'' @ CRLF) = Inr 255"

definition test_parse_chunk_size_with_trailing_space :: bool where
  "test_parse_chunk_size_with_trailing_space \<longleftrightarrow>
     parse_chunk_size (''10 '' @ CRLF) = Inr 16"

definition test_parse_chunk_size_newline_only :: bool where
  "test_parse_chunk_size_newline_only \<longleftrightarrow>
     parse_chunk_size (''10'' @ [LF]) = Inr 16"

definition test_parse_chunk_size_invalid_hex :: bool where
  "test_parse_chunk_size_invalid_hex \<longleftrightarrow>
     isl (parse_chunk_size (''xyz'' @ CRLF)) \<and>
     isl (parse_chunk_size (''gg'' @ CRLF))"

definition test_parse_chunk_size_empty :: bool where
  "test_parse_chunk_size_empty \<longleftrightarrow>
     isl (parse_chunk_size (CRLF))"

definition test_should_rewrite_text_plain :: bool where
  "test_should_rewrite_text_plain \<longleftrightarrow>
     should_rewrite_content (''HTTP/1.1 200 OK'' @ CRLF @ ''Content-Type: text/plain'' @ CRLF @ CRLF)"

definition test_should_rewrite_text_xml :: bool where
  "test_should_rewrite_text_xml \<longleftrightarrow>
     should_rewrite_content (''HTTP/1.1 200 OK'' @ CRLF @ ''Content-Type: text/xml'' @ CRLF @ CRLF)"

definition test_should_rewrite_application_xml :: bool where
  "test_should_rewrite_application_xml \<longleftrightarrow>
     should_rewrite_content (''HTTP/1.1 200 OK'' @ CRLF @ ''Content-Type: application/xml'' @ CRLF @ CRLF)"

definition test_should_rewrite_json :: bool where
  "test_should_rewrite_json \<longleftrightarrow>
     should_rewrite_content (''HTTP/1.1 200 OK'' @ CRLF @ ''Content-Type: application/json'' @ CRLF @ CRLF)"

definition test_should_rewrite_html :: bool where
  "test_should_rewrite_html \<longleftrightarrow>
     should_rewrite_content (''HTTP/1.1 200 OK'' @ CRLF @ ''Content-Type: text/html'' @ CRLF @ CRLF)"

definition test_should_rewrite_text_html_charset :: bool where
  "test_should_rewrite_text_html_charset \<longleftrightarrow>
     should_rewrite_content (''HTTP/1.1 200 OK'' @ CRLF @ ''Content-Type: text/html; charset=utf-8'' @ CRLF @ CRLF)"

definition test_should_not_rewrite_video :: bool where
  "test_should_not_rewrite_video \<longleftrightarrow>
     \<not> should_rewrite_content (''HTTP/1.1 200 OK'' @ CRLF @ ''Content-Type: video/mp4'' @ CRLF @ CRLF)"

definition test_should_not_rewrite_audio :: bool where
  "test_should_not_rewrite_audio \<longleftrightarrow>
     \<not> should_rewrite_content (''HTTP/1.1 200 OK'' @ CRLF @ ''Content-Type: audio/mpeg'' @ CRLF @ CRLF)"

definition test_should_not_rewrite_image :: bool where
  "test_should_not_rewrite_image \<longleftrightarrow>
     \<not> should_rewrite_content (''HTTP/1.1 200 OK'' @ CRLF @ ''Content-Type: image/jpeg'' @ CRLF @ CRLF)"

definition test_should_not_rewrite_octet_stream :: bool where
  "test_should_not_rewrite_octet_stream \<longleftrightarrow>
     \<not> should_rewrite_content (''HTTP/1.1 200 OK'' @ CRLF @ ''Content-Type: application/octet-stream'' @ CRLF @ CRLF)"

definition test_should_not_rewrite_missing_content_type :: bool where
  "test_should_not_rewrite_missing_content_type \<longleftrightarrow>
     \<not> should_rewrite_content (''HTTP/1.1 200 OK'' @ CRLF @ ''Server: Test'' @ CRLF @ CRLF)"

definition test_should_rewrite_case_insensitive :: bool where
  "test_should_rewrite_case_insensitive \<longleftrightarrow>
     should_rewrite_content (''HTTP/1.1 200 OK'' @ CRLF @ ''CONTENT-TYPE: TEXT/XML'' @ CRLF @ CRLF)"

definition test_update_content_length_basic :: bool where
  "test_update_content_length_basic \<longleftrightarrow>
     (let result = update_content_length (''HTTP/1.1 200 OK'' @ CRLF @ ''Content-Length: 100'' @ CRLF @ CRLF) 200
      in contains result ''Content-Length: 200'' \<and> \<not> contains result ''Content-Length: 100'')"

definition test_update_content_length_case_insensitive :: bool where
  "test_update_content_length_case_insensitive \<longleftrightarrow>
     (let result = update_content_length (''HTTP/1.1 200 OK'' @ CRLF @ ''content-length: 100'' @ CRLF @ CRLF) 50
      in contains result ''Content-Length: 50'')"

definition test_update_content_length_preserves_other_headers :: bool where
  "test_update_content_length_preserves_other_headers \<longleftrightarrow>
     (let result = update_content_length (''HTTP/1.1 200 OK'' @ CRLF @ ''Server: Test'' @ CRLF @ ''Content-Length: 100'' @ CRLF @ ''Connection: close'' @ CRLF @ CRLF) 150
      in contains result ''Server: Test'' \<and> contains result ''Content-Length: 150'' \<and> contains result ''Connection: close'')"

definition test_update_content_length_no_header :: bool where
  "test_update_content_length_no_header \<longleftrightarrow>
     (let result = update_content_length (''HTTP/1.1 200 OK'' @ CRLF @ ''Server: Test'' @ CRLF @ CRLF) 100
      in \<not> contains result ''Content-Length:'')"

definition test_read_line_bytes_simple :: bool where
  "test_read_line_bytes_simple \<longleftrightarrow>
     fst (read_line_bytes (cursor (''Hello'' @ [LF] @ ''World'' @ [LF]))) = Inr (''Hello'' @ [LF])"

definition test_read_line_bytes_crlf :: bool where
  "test_read_line_bytes_crlf \<longleftrightarrow>
     fst (read_line_bytes (cursor (''Hello'' @ CRLF @ ''World'' @ CRLF))) = Inr (''Hello'' @ CRLF)"

definition test_read_line_bytes_empty :: bool where
  "test_read_line_bytes_empty \<longleftrightarrow>
     fst (read_line_bytes (cursor ([]))) = Inr ([])"

definition test_read_line_bytes_binary_data :: bool where
  "test_read_line_bytes_binary_data \<longleftrightarrow>
     fst (read_line_bytes (cursor ([CHR 0x00, CHR 0xFF, CHR 0x80, LF, CHR 0x01, CHR 0x02]))) = Inr ([CHR 0x00, CHR 0xFF, CHR 0x80, LF])"

definition test_read_chunked_body_single_chunk :: bool where
  "test_read_chunked_body_single_chunk \<longleftrightarrow>
     fst (read_chunked_body MAX_REWRITABLE_BODY_SIZE (cursor (''5'' @ CRLF @ ''Hello'' @ CRLF @ ''0'' @ CRLF @ CRLF))) =
       Inr (''Hello'')"

definition test_read_chunked_body_multiple_chunks :: bool where
  "test_read_chunked_body_multiple_chunks \<longleftrightarrow>
     fst (read_chunked_body MAX_REWRITABLE_BODY_SIZE (cursor (''5'' @ CRLF @ ''Hello'' @ CRLF @ ''6'' @ CRLF @ '' World'' @ CRLF @ ''0'' @ CRLF @ CRLF))) =
       Inr (''Hello World'')"

definition test_read_chunked_body_empty :: bool where
  "test_read_chunked_body_empty \<longleftrightarrow>
     fst (read_chunked_body MAX_REWRITABLE_BODY_SIZE (cursor (''0'' @ CRLF @ CRLF))) =
       Inr ([])"

definition test_read_chunked_body_hex_size :: bool where
  "test_read_chunked_body_hex_size \<longleftrightarrow>
     fst (read_chunked_body MAX_REWRITABLE_BODY_SIZE (cursor (''a'' @ CRLF @ ''0123456789'' @ CRLF @ ''0'' @ CRLF @ CRLF))) =
       Inr (''0123456789'') \<and>
     length ''0123456789'' = 10"

definition test_read_chunked_body_binary_data :: bool where
  "test_read_chunked_body_binary_data \<longleftrightarrow>
     (let chunk_data = [CHR 0x00, CHR 0xFF, CHR 0x80, CHR 0x7F, CHR 0x01];
          bytes = format_hex (length chunk_data) @ CRLF @ chunk_data @ CRLF @ ''0'' @ CRLF @ CRLF
      in fst (read_chunked_body MAX_REWRITABLE_BODY_SIZE (cursor bytes)) = Inr chunk_data)"

definition test_read_chunked_body_exceeds_max_size :: bool where
  "test_read_chunked_body_exceeds_max_size \<longleftrightarrow>
     fst (read_chunked_body 10 (cursor (''10'' @ CRLF @ ''0123456789abcdef'' @ CRLF @ ''0'' @ CRLF @ CRLF))) =
       Inl (IoError InvalidData)"

definition test_write_chunked_body_simple :: bool where
  "test_write_chunked_body_simple \<longleftrightarrow>
     (case write_chunked_body (''Hello'') vec of (r, output) \<Rightarrow>
        r = Inr () \<and> out output = ''5'' @ CRLF @ ''Hello'' @ CRLF @ ''0'' @ CRLF @ CRLF)"

definition test_write_chunked_body_empty :: bool where
  "test_write_chunked_body_empty \<longleftrightarrow>
     (case write_chunked_body ([]) vec of (r, output) \<Rightarrow>
        r = Inr () \<and> out output = ''0'' @ CRLF @ CRLF @ ''0'' @ CRLF @ CRLF)"

definition test_write_chunked_body_larger :: bool where
  "test_write_chunked_body_larger \<longleftrightarrow>
     (case write_chunked_body (''This is a longer test body with multiple words'') vec of (r, output) \<Rightarrow>
        r = Inr () \<and> starts_with (out output) (format_hex (length ''This is a longer test body with multiple words'') @ CRLF) \<and>
        suffix (CRLF @ ''0'' @ CRLF @ CRLF) (out output))"

definition test_write_chunked_body_binary :: bool where
  "test_write_chunked_body_binary \<longleftrightarrow>
     (case write_chunked_body ([CHR 0x00, CHR 0xFF, CHR 0x80, CHR 0x7F]) vec of (r, output) \<Rightarrow>
        r = Inr () \<and> starts_with (out output) (''4'' @ CRLF) \<and>
        take 4 (drop 3 (out output)) = [CHR 0x00, CHR 0xFF, CHR 0x80, CHR 0x7F])"

definition test_chunked_roundtrip :: bool where
  "test_chunked_roundtrip \<longleftrightarrow>
     (case write_chunked_body (''Test body content for round trip'') vec of (r, encoded) \<Rightarrow>
        r = Inr () \<and> fst (read_chunked_body MAX_REWRITABLE_BODY_SIZE (cursor (out encoded))) = Inr (''Test body content for round trip''))"

definition test_chunked_roundtrip_binary :: bool where
  "test_chunked_roundtrip_binary \<longleftrightarrow>
     (case write_chunked_body (map char_of [0::nat..<256]) vec of (r, encoded) \<Rightarrow>
        r = Inr () \<and> fst (read_chunked_body MAX_REWRITABLE_BODY_SIZE (cursor (out encoded))) = Inr (map char_of [0::nat..<256]))"

definition test_url_replacement_basic :: bool where
  "test_url_replacement_basic \<longleftrightarrow>
     (let result = str_replace (''Location: http://192.168.1.41:55555/desc.xml'') ''http://192.168.1.41:55555'' ''http://192.168.1.52:8100''
      in result = ''Location: http://192.168.1.52:8100/desc.xml'')"

definition test_url_replacement_multiple :: bool where
  "test_url_replacement_multiple \<longleftrightarrow>
     (let result = str_replace (''<url>http://192.168.1.41:55555/a</url>'' @ [LF] @ ''<url>http://192.168.1.41:55555/b</url>'') ''http://192.168.1.41:55555'' ''http://192.168.1.52:8100''
      in contains result ''http://192.168.1.52:8100/a'' \<and> contains result ''http://192.168.1.52:8100/b'' \<and> \<not> contains result ''192.168.1.41'')"

definition test_url_replacement_xml_body :: bool where
  "test_url_replacement_xml_body \<longleftrightarrow>
     (let result = str_replace (''<?xml version='' @ [CHR 0x22] @ ''1.0'' @ [CHR 0x22] @ ''?>'' @ [LF] @
        ''<root xmlns='' @ [CHR 0x22] @ ''urn:schemas-upnp-org:device-1-0'' @ [CHR 0x22] @ ''>'' @ [LF] @
        ''  <URLBase>http://192.168.1.41:55555/</URLBase>'' @ [LF] @
        ''  <device>'' @ [LF] @
        ''    <presentationURL>http://192.168.1.41:55555/index.html</presentationURL>'' @ [LF] @
        ''  </device>'' @ [LF] @
        ''</root>'') ''http://192.168.1.41:55555'' ''http://192.168.1.52:8100''
      in contains result ''http://192.168.1.52:8100/'' \<and>
         contains result ''http://192.168.1.52:8100/index.html'' \<and>
         \<not> contains result ''192.168.1.41:55555'')"

definition test_url_replacement_no_match :: bool where
  "test_url_replacement_no_match \<longleftrightarrow>
     (let result = str_replace (''Some content without URLs'') ''http://192.168.1.41:55555'' ''http://192.168.1.52:8100''
      in result = ''Some content without URLs'')"

subsection \<open>packet.rs\<close>

definition test_alive_starts_with_notify :: "bytes \<Rightarrow> bool" where
  "test_alive_starts_with_notify date \<longleftrightarrow>
     (let output = to_string date (Alive ''http://192.168.1.1:8080/desc.xml'' ''Test/1.0'' ''uuid:test-device''
          ''urn:schemas-upnp-org:device:MediaServer:1'' 1800)
      in starts_with output (''NOTIFY * HTTP/1.1'' @ CRLF))"

definition test_alive_has_host_header :: "bytes \<Rightarrow> bool" where
  "test_alive_has_host_header date \<longleftrightarrow>
     (let output = to_string date (Alive ''http://192.168.1.1:8080/desc.xml'' ''Test/1.0'' ''uuid:test-device''
          ''urn:schemas-upnp-org:device:MediaServer:1'' 1800)
      in contains output (''HOST:239.255.255.250:1900'' @ CRLF))"

definition test_alive_has_cache_control :: "bytes \<Rightarrow> bool" where
  "test_alive_has_cache_control date \<longleftrightarrow>
     (let output = to_string date (Alive ''http://192.168.1.1:8080/desc.xml'' ''Test/1.0'' ''uuid:test-device''
          ''urn:schemas-upnp-org:device:MediaServer:1'' 1800)
      in contains output (''CACHE-CONTROL:max-age=1800'' @ CRLF))"

definition test_alive_has_location :: "bytes \<Rightarrow> bool" where
  "test_alive_has_location date \<longleftrightarrow>
     (let output = to_string date (Alive ''http://192.168.1.1:8080/desc.xml'' ''Test/1.0'' ''uuid:test-device''
          ''urn:schemas-upnp-org:device:MediaServer:1'' 1800)
      in contains output (''LOCATION:http://192.168.1.1:8080/desc.xml'' @ CRLF))"

definition test_alive_has_server :: "bytes \<Rightarrow> bool" where
  "test_alive_has_server date \<longleftrightarrow>
     (let output = to_string date (Alive ''http://192.168.1.1:8080/desc.xml'' ''Test/1.0 UPnP/1.0'' ''uuid:test-device''
          ''urn:schemas-upnp-org:device:MediaServer:1'' 1800)
      in contains output (''SERVER: Test/1.0 UPnP/1.0'' @ CRLF))"

definition test_alive_has_nt_usn_nts :: "bytes \<Rightarrow> bool" where
  "test_alive_has_nt_usn_nts date \<longleftrightarrow>
     (let output = to_string date (Alive ''http://192.168.1.1:8080/desc.xml'' ''Test/1.0'' ''uuid:test-device-123''
          ''urn:schemas-upnp-org:device:MediaServer:1'' 1800)
      in contains output (''NT:urn:schemas-upnp-org:device:MediaServer:1'' @ CRLF) \<and>
         contains output (''USN:uuid:test-device-123::urn:schemas-upnp-org:device:MediaServer:1'' @ CRLF) \<and>
         contains output (''NTS:ssdp:alive'' @ CRLF))"

definition test_alive_ends_with_empty_line :: "bytes \<Rightarrow> bool" where
  "test_alive_ends_with_empty_line date \<longleftrightarrow>
     (let output = to_string date (Alive ''http://192.168.1.1:8080/desc.xml'' ''Test/1.0'' ''uuid:test-device''
          ''urn:schemas-upnp-org:device:MediaServer:1'' 1800)
      in suffix (CRLF @ CRLF) output)"

definition test_ok_starts_with_http_200 :: "bytes \<Rightarrow> bool" where
  "test_ok_starts_with_http_200 date \<longleftrightarrow>
     (let output = to_string date (Ok ''http://192.168.1.1:8080/desc.xml'' ''Test/1.0'' ''uuid:test-device''
          ''urn:schemas-upnp-org:device:MediaServer:1'' 1800)
      in starts_with output (''HTTP/1.1 200 OK'' @ CRLF))"

definition test_ok_has_date_header :: "bytes \<Rightarrow> bool" where
  "test_ok_has_date_header date \<longleftrightarrow>
     (let output = to_string date (Ok ''http://192.168.1.1:8080/desc.xml'' ''Test/1.0'' ''uuid:test-device''
          ''urn:schemas-upnp-org:device:MediaServer:1'' 1800)
      in contains output ''DATE:'' \<and> contains output ''GMT'')"

definition test_ok_has_st_header :: "bytes \<Rightarrow> bool" where
  "test_ok_has_st_header date \<longleftrightarrow>
     (let output = to_string date (Ok ''http://192.168.1.1:8080/desc.xml'' ''Test/1.0'' ''uuid:test-device''
          ''urn:schemas-upnp-org:device:MediaServer:1'' 1800)
      in contains output (''ST: urn:schemas-upnp-org:device:MediaServer:1'' @ CRLF))"

definition test_ok_has_ext_header :: "bytes \<Rightarrow> bool" where
  "test_ok_has_ext_header date \<longleftrightarrow>
     (let output = to_string date (Ok ''http://192.168.1.1:8080/desc.xml'' ''Test/1.0'' ''uuid:test-device''
          ''urn:schemas-upnp-org:device:MediaServer:1'' 1800)
      in contains output (''EXT:'' @ CRLF))"

definition test_ok_has_content_length_zero :: "bytes \<Rightarrow> bool" where
  "test_ok_has_content_length_zero date \<longleftrightarrow>
     (let output = to_string date (Ok ''http://192.168.1.1:8080/desc.xml'' ''Test/1.0'' ''uuid:test-device''
          ''urn:schemas-upnp-org:device:MediaServer:1'' 1800)
      in contains output (''Content-Length: 0'' @ CRLF))"

definition test_byebye_starts_with_notify :: "bytes \<Rightarrow> bool" where
  "test_byebye_starts_with_notify date \<longleftrightarrow>
     (let output = to_string date (ByeBye ''uuid:test-device'' ''urn:schemas-upnp-org:device:MediaServer:1'')
      in starts_with output (''NOTIFY * HTTP/1.1'' @ CRLF))"

definition test_byebye_has_host :: "bytes \<Rightarrow> bool" where
  "test_byebye_has_host date \<longleftrightarrow>
     (let output = to_string date (ByeBye ''uuid:test-device'' ''urn:schemas-upnp-org:device:MediaServer:1'')
      in contains output (''HOST:239.255.255.250:1900'' @ CRLF))"

definition test_byebye_has_nts_byebye :: "bytes \<Rightarrow> bool" where
  "test_byebye_has_nts_byebye date \<longleftrightarrow>
     (let output = to_string date (ByeBye ''uuid:test-device'' ''urn:schemas-upnp-org:device:MediaServer:1'')
      in contains output (''NTS:ssdp:byebye'' @ CRLF))"

definition test_byebye_no_cache_control :: "bytes \<Rightarrow> bool" where
  "test_byebye_no_cache_control date \<longleftrightarrow>
     (let output = to_string date (ByeBye ''uuid:test-device'' ''urn:schemas-upnp-org:device:MediaServer:1'')
      in \<not> contains output ''CACHE-CONTROL'')"

definition test_byebye_no_location :: "bytes \<Rightarrow> bool" where
  "test_byebye_no_location date \<longleftrightarrow>
     (let output = to_string date (ByeBye ''uuid:test-device'' ''urn:schemas-upnp-org:device:MediaServer:1'')
      in \<not> contains output ''LOCATION'')"

definition test_byebye_no_server :: "bytes \<Rightarrow> bool" where
  "test_byebye_no_server date \<longleftrightarrow>
     (let output = to_string date (ByeBye ''uuid:test-device'' ''urn:schemas-upnp-org:device:MediaServer:1'')
      in \<not> contains output ''SERVER'')"

subsection \<open>The model passes them\<close>

lemma size_tests:
  "test_parse_chunk_size_zero"
  "test_parse_chunk_size_single_digit"
  "test_parse_chunk_size_uppercase"
  "test_parse_chunk_size_mixed_case"
  "test_parse_chunk_size_with_extension"
  "test_parse_chunk_size_with_trailing_space"
  "test_parse_chunk_size_newline_only"
  "test_parse_chunk_size_invalid_hex"
  "test_parse_chunk_size_empty"
  by code_simp+

lemma rewrite_tests:
  "test_should_rewrite_text_plain"
  "test_should_rewrite_text_xml"
  "test_should_rewrite_application_xml"
  "test_should_rewrite_json"
  "test_should_rewrite_html"
  "test_should_rewrite_text_html_charset"
  "test_should_not_rewrite_video"
  "test_should_not_rewrite_audio"
  "test_should_not_rewrite_image"
  "test_should_not_rewrite_octet_stream"
  "test_should_not_rewrite_missing_content_type"
  "test_should_rewrite_case_insensitive"
  by code_simp+

lemma update_tests:
  "test_update_content_length_basic"
  "test_update_content_length_case_insensitive"
  "test_update_content_length_preserves_other_headers"
  "test_update_content_length_no_header"
  by code_simp+

lemma line_tests:
  "test_read_line_bytes_simple"
  "test_read_line_bytes_crlf"
  "test_read_line_bytes_empty"
  "test_read_line_bytes_binary_data"
  by code_simp+

lemma over_tests:
  "test_read_chunked_body_exceeds_max_size"
  by code_simp+

lemma read_tests:
  "test_read_chunked_body_single_chunk"
  "test_read_chunked_body_multiple_chunks"
  "test_read_chunked_body_empty"
  "test_read_chunked_body_hex_size"
  "test_read_chunked_body_binary_data"
  by code_simp+

lemma write_tests:
  "test_write_chunked_body_simple"
  "test_write_chunked_body_empty"
  "test_write_chunked_body_larger"
  "test_write_chunked_body_binary"
  by code_simp+

lemma trip_tests:
  "test_chunked_roundtrip"
  "test_chunked_roundtrip_binary"
  by code_simp+

lemma replace_tests:
  "test_url_replacement_basic"
  "test_url_replacement_multiple"
  "test_url_replacement_no_match"
  by code_simp+

lemma xml_test: "test_url_replacement_xml_body"
  unfolding test_url_replacement_xml_body_def
  by (simp add: str_replace_def starts_with_def Let_def)

text \<open>The packets carry a date that is not known.\<close>

lemma contains_append: "contains t pat \<Longrightarrow> contains (s @ t) pat"
  by (induction s) auto

lemma contains_prefix: "contains s pat \<Longrightarrow> contains (s @ t) pat"
  unfolding contains_sublist sublist_def by (metis append.assoc)

lemma contains_here: "contains (pat @ s) pat"
  by (simp add: contains_sublist sublist_appendI [of _ "[]", simplified])

lemma contains_replace: "pat \<noteq> [] \<Longrightarrow> contains s pat \<Longrightarrow> contains (replace_nonempty pat to s) to"
proof (induction pat to s rule: replace_nonempty.induct)
  case (1 pat to)
  then show ?case by (auto simp: starts_with_def)
next
  case (2 pat to b s)
  then show ?case
    by (cases "starts_with (b # s) pat")
       (auto simp: contains_here intro: contains_append [of _ _ "[b]", simplified])
qed

lemma lifetime_text: "format_usize 1800 = ''1800''"
  by code_simp

lemmas packet_text = Let_def starts_with_def contains_append suffix_def lifetime_text

lemma alive_tests:
  "test_alive_starts_with_notify date"
  "test_alive_has_host_header date"
  "test_alive_has_cache_control date"
  "test_alive_has_location date"
  "test_alive_has_server date"
  "test_alive_has_nt_usn_nts date"
  "test_alive_ends_with_empty_line date"
  by (simp_all add: packet_text
      test_alive_starts_with_notify_def
      test_alive_has_host_header_def
      test_alive_has_cache_control_def
      test_alive_has_location_def
      test_alive_has_server_def
      test_alive_has_nt_usn_nts_def
      test_alive_ends_with_empty_line_def)

lemma ok_tests:
  "test_ok_starts_with_http_200 date"
  "test_ok_has_st_header date"
  "test_ok_has_ext_header date"
  "test_ok_has_content_length_zero date"
  by (simp_all add: packet_text
      test_ok_starts_with_http_200_def
      test_ok_has_st_header_def
      test_ok_has_ext_header_def
      test_ok_has_content_length_zero_def)

lemma byebye_tests:
  "test_byebye_starts_with_notify date"
  "test_byebye_has_host date"
  "test_byebye_has_nts_byebye date"
  "test_byebye_no_cache_control date"
  "test_byebye_no_location date"
  "test_byebye_no_server date"
  by (simp_all add: packet_text
      test_byebye_starts_with_notify_def
      test_byebye_has_host_def
      test_byebye_has_nts_byebye_def
      test_byebye_no_cache_control_def
      test_byebye_no_location_def
      test_byebye_no_server_def)

lemma date_test: "contains date ''+0000'' \<Longrightarrow> test_ok_has_date_header date"
  using contains_replace [of "''+0000''" date "''GMT''"]
  by (simp add: packet_text test_ok_has_date_header_def contains_prefix str_replace_def)

definition tcp_proxy_tests :: "bool list" where
  "tcp_proxy_tests =
     [test_parse_chunk_size_zero,
      test_parse_chunk_size_single_digit,
      test_parse_chunk_size_uppercase,
      test_parse_chunk_size_mixed_case,
      test_parse_chunk_size_with_extension,
      test_parse_chunk_size_with_trailing_space,
      test_parse_chunk_size_newline_only,
      test_parse_chunk_size_invalid_hex,
      test_parse_chunk_size_empty,
      test_should_rewrite_text_plain,
      test_should_rewrite_text_xml,
      test_should_rewrite_application_xml,
      test_should_rewrite_json,
      test_should_rewrite_html,
      test_should_rewrite_text_html_charset,
      test_should_not_rewrite_video,
      test_should_not_rewrite_audio,
      test_should_not_rewrite_image,
      test_should_not_rewrite_octet_stream,
      test_should_not_rewrite_missing_content_type,
      test_should_rewrite_case_insensitive,
      test_update_content_length_basic,
      test_update_content_length_case_insensitive,
      test_update_content_length_preserves_other_headers,
      test_update_content_length_no_header,
      test_read_line_bytes_simple,
      test_read_line_bytes_crlf,
      test_read_line_bytes_empty,
      test_read_line_bytes_binary_data,
      test_read_chunked_body_single_chunk,
      test_read_chunked_body_multiple_chunks,
      test_read_chunked_body_empty,
      test_read_chunked_body_hex_size,
      test_read_chunked_body_binary_data,
      test_read_chunked_body_exceeds_max_size,
      test_write_chunked_body_simple,
      test_write_chunked_body_empty,
      test_write_chunked_body_larger,
      test_write_chunked_body_binary,
      test_chunked_roundtrip,
      test_chunked_roundtrip_binary,
      test_url_replacement_basic,
      test_url_replacement_multiple,
      test_url_replacement_xml_body,
      test_url_replacement_no_match]"

definition packet_tests :: "bytes \<Rightarrow> bool list" where
  "packet_tests date =
     [test_alive_starts_with_notify date,
      test_alive_has_host_header date,
      test_alive_has_cache_control date,
      test_alive_has_location date,
      test_alive_has_server date,
      test_alive_has_nt_usn_nts date,
      test_alive_ends_with_empty_line date,
      test_ok_starts_with_http_200 date,
      test_ok_has_date_header date,
      test_ok_has_st_header date,
      test_ok_has_ext_header date,
      test_ok_has_content_length_zero date,
      test_byebye_starts_with_notify date,
      test_byebye_has_host date,
      test_byebye_has_nts_byebye date,
      test_byebye_no_cache_control date,
      test_byebye_no_location date,
      test_byebye_no_server date]"

text \<open>The model passes the unit tests of the source, at any date printed with the offset of UTC and with
  every HTTP and XML parser that keeps its contract.\<close>

lemma source_tests_pass:
  assumes "contains date ''+0000''" and "httparse_ok httparse" and "xml_ok parser"
  shows "list_all (\<lambda>test. test) (tcp_proxy_tests @ packet_tests date) \<and>
    list_all (\<lambda>test. test httparse) listener_tests \<and> list_all (\<lambda>test. test parser) description_tests"
  using size_tests rewrite_tests update_tests line_tests over_tests read_tests write_tests trip_tests
    replace_tests xml_test alive_tests ok_tests byebye_tests date_test [OF assms(1)]
    listener_tests_pass [OF assms(2)] description_tests_pass [OF assms(3)]
  by (simp add: tcp_proxy_tests_def packet_tests_def)

end
