(* ===== verification/Service.thy ===== *)
theory Service
  imports Ending
begin

section \<open>The service the proxy gives\<close>

text \<open>
  An abstract specification of the proxy, without streams, semaphores or tasks: clients arrive and wait
  one at a time, are turned away or get a session, at most a hundred sessions exist at once, and a
  session only ever grows in what it has delivered in each direction, whatever the other sessions
  do. The accept loop with its connections refines it.
\<close>

subsection \<open>The specification\<close>

record session =
  owner :: socket_addr
  got :: "direction \<Rightarrow> bytes"

record service =
  waiting :: "socket_addr option"
  sessions :: "nat \<rightharpoonup> session"
  served_so_far :: nat

datatype service_event =
    Arrive socket_addr
  | TurnAway
  | Serve
  | Deliver nat
  | Leave nat

definition service_init :: service where
  "service_init = \<lparr>waiting = None, sessions = Map.empty, served_so_far = 0\<rparr>"

inductive service_step :: "service \<Rightarrow> service_event \<Rightarrow> service \<Rightarrow> bool" where
  arrive: "waiting v = None \<Longrightarrow> service_step v (Arrive p) (v\<lparr>waiting := Some p\<rparr>)"
| turn_away: "waiting v = Some p \<Longrightarrow> service_step v TurnAway (v\<lparr>waiting := None\<rparr>)"
| serve: "waiting v = Some p \<Longrightarrow> card (dom (sessions v)) < MAX_CONCURRENT_CONNECTIONS \<Longrightarrow>
    service_step v Serve
      (v\<lparr>waiting := None,
         sessions := (sessions v)(served_so_far v \<mapsto> \<lparr>owner = p, got = (\<lambda>_. [])\<rparr>),
         served_so_far := Suc (served_so_far v)\<rparr>)"
| deliver: "sessions v n = Some k \<Longrightarrow> \<forall>d. prefix (got k d) (g d) \<Longrightarrow>
    service_step v (Deliver n) (v\<lparr>sessions := (sessions v)(n \<mapsto> k\<lparr>got := g\<rparr>)\<rparr>)"
| leave: "sessions v n = Some k \<Longrightarrow> service_step v (Leave n) (v\<lparr>sessions := (sessions v)(n := None)\<rparr>)"

subsection \<open>The abstraction\<close>

fun waiting_of :: "phase \<Rightarrow> socket_addr option" where
  "waiting_of (Acquiring p) = Some p"
| "waiting_of (Connecting p) = Some p"
| "waiting_of _ = None"

definition session_of :: "tcp_proxy \<Rightarrow> link \<Rightarrow> session" where
  "session_of cfg k = \<lparr>owner = peer k, got = (\<lambda>d. delivered cfg d k)\<rparr>"

definition service_of :: "tcp_proxy \<Rightarrow> server \<Rightarrow> service" where
  "service_of cfg s =
     \<lparr>waiting = waiting_of (phase_of (core s)), sessions = map_option (session_of cfg) \<circ> links s,
      served_so_far = next_id s\<rparr>"

fun service_event_of :: "server_event \<Rightarrow> service_event option" where
  "service_event_of (Loop (Accepted p)) = Some (Arrive p)"
| "service_event_of (Loop (ConnectFailed p)) = Some TurnAway"
| "service_event_of (Loop (ConnectTimedOut p)) = Some TurnAway"
| "service_event_of (Opened p) = Some Serve"
| "service_event_of (Arrived d n t e) = Some (Deliver n)"
| "service_event_of (Receiver d n r) = Some (Deliver n)"
| "service_event_of (Done n) = Some (Leave n)"
| "service_event_of _ = None"

lemma session_new: "session_of cfg (new_link p) = \<lparr>owner = p, got = (\<lambda>_. [])\<rparr>"
  by (simp add: session_of_def delivered_new) (simp add: new_link_def)

lemma sessions_upd:
  "map_option (session_of cfg) \<circ> m(n \<mapsto> k) = (map_option (session_of cfg) \<circ> m)(n \<mapsto> session_of cfg k)"
  "map_option (session_of cfg) \<circ> m(n := None) = (map_option (session_of cfg) \<circ> m)(n := None)"
  by auto

lemma card_links: "server_inv s \<Longrightarrow> card (dom (links s)) = size (active (core s))"
  by (simp add: server_inv_def peers_def)

lemma dom_sessions: "dom (map_option f \<circ> m) = dom m"
  by (auto simp: dom_def)

lemma delivered_arrived:
  assumes "fin (stream d k) = Open"
  shows "prefix (delivered cfg d' k) (delivered cfg d' (set_stream d (resumed t e (stream d k)) k))"
  using delivered_resumed [OF assms, of cfg t e]
    delivered_cong [of d' k "set_stream d (resumed t e (stream d k)) k" cfg]
  by (cases "d = d'") auto

lemma delivered_changed:
  assumes "out (stream d k) = []" and "may_become (length (delivered cfg d k)) (room (stream d k)) r"
  shows "prefix (delivered cfg d' k) (delivered cfg d' (set_stream d ((stream d k)\<lparr>room := r\<rparr>) k))"
  using delivered_receiver [OF assms] delivered_cong [of d' k "set_stream d ((stream d k)\<lparr>room := r\<rparr>) k" cfg]
  by (cases "d = d'") auto

lemma delivers:
  assumes "links s n = Some k" and "\<forall>d'. prefix (delivered cfg d' k) (delivered cfg d' k')" and "peer k' = peer k"
  shows "service_step (service_of cfg s) (Deliver n) (service_of cfg (s\<lparr>links := (links s)(n \<mapsto> k')\<rparr>))"
  using service_step.deliver [of "service_of cfg s" n "session_of cfg k" "\<lambda>d'. delivered cfg d' k'"] assms
  by (simp add: service_of_def sessions_upd) (simp add: session_of_def)

lemma service_stepI:
  "waiting v = None \<Longrightarrow> v' = v\<lparr>waiting := Some p\<rparr> \<Longrightarrow> service_step v (Arrive p) v'"
  "waiting v = Some p \<Longrightarrow> v' = v\<lparr>waiting := None\<rparr> \<Longrightarrow> service_step v TurnAway v'"
  using arrive turn_away by simp_all

lemma service_step_refines:
  assumes "server_inv s" and "server_step cfg s e s'" and "service_event_of e = Some f"
  shows "service_step (service_of cfg s) f (service_of cfg s')"
  using assms(2)
proof (cases rule: server_step.cases)
  case (in_loop e' l)
  from in_loop(3,1,2) assms(3) show ?thesis
    by (cases rule: listen_step.cases)
       (auto simp: service_of_def intro: service_stepI)
next
  case (opened p l)
  from opened(3) have p: "phase_of (core s) = Connecting p" "phase_of l = Accepting"
    by (cases rule: listen_step.cases; simp)+
  with assms(1) have "card (dom (sessions (service_of cfg s))) < MAX_CONCURRENT_CONNECTIONS"
    by (simp add: service_of_def dom_sessions card_links) (auto simp: server_inv_def listen_inv_def)
  from service_step.serve [OF _ this, of p] p show ?thesis
    using opened assms(3)
    by (simp add: service_of_def sessions_upd session_new)
next
  case (arrived n k d t e')
  with assms(3) delivers [OF arrived(3), of cfg "set_stream d (resumed t e' (stream d k)) k"]
    delivered_arrived [OF arrived(4)] show ?thesis by simp
next
  case (receiver n k d r)
  from receiver(3) assms(1) have "out (stream d k) = []"
    by (auto simp: server_inv_def intro!: out_unread ranI)
  with receiver assms(3) delivers [OF receiver(3), of cfg "set_stream d ((stream d k)\<lparr>room := r\<rparr>) k"]
    delivered_changed [OF _ receiver(4)] show ?thesis by simp
next
  case (ended n k l)
  from ended(5) have "phase_of l = phase_of (core s)"
    by (cases rule: listen_step.cases) simp
  with service_step.leave [of "service_of cfg s" n "session_of cfg k"] ended assms(3) show ?thesis
    by (simp add: service_of_def sessions_upd)
qed

lemma service_stutters:
  assumes "server_inv s" and "server_step cfg s e s'" and "service_event_of e = None"
  shows "service_of cfg s' = service_of cfg s"
  using assms(2)
proof (cases rule: server_step.cases)
  case (in_loop e' l)
  from in_loop(3,1,2,4) assms(1,3) show ?thesis
    by (cases rule: listen_step.cases) (auto simp: service_of_def server_inv_def listen_inv_def)
qed (use assms(3) in simp_all)

interpretation svc: refinement "server_step cfg" server_init server_inv service_step service_init
    "service_of cfg" service_event_of
proof
  show "service_of cfg server_init = service_init"
    by (auto simp: service_of_def server_init_def listener_init_def service_init_def)
  show "service_step (service_of cfg s) f (service_of cfg s')"
    if "server_inv s" "server_step cfg s e s'" "service_event_of e = Some f" for s e s' f
    by (rule service_step_refines [OF that])
  show "service_of cfg s' = service_of cfg s"
    if "server_inv s" "server_step cfg s e s'" "service_event_of e = None" for s e s'
    by (rule service_stutters [OF that])
qed

subsection \<open>Property\<close>

text \<open>C4. The proxy refines the abstract service: every run of the accept loop with its connections, in any
  interleaving, is a run of the specification in which at most a hundred clients have a session, a
  session starts with nothing delivered and only grows, by events of its own connection, and clients
  wait one at a time.\<close>

theorem server_refines_service:
  assumes "run (server_step cfg) server_init es s"
  shows "run service_step service_init (List.map_filter service_event_of es) (service_of cfg s)"
  using assms by (rule svc.run_refines)

theorem server_refines_service_witness:
  "run service_step service_init [Arrive client, Serve] (service_of sample_cfg (full 1))"
proof -
  have "run (server_step sample_cfg) server_init [Loop (Accepted client), Loop Acquired, Opened client] (full 1)"
    using full_Suc [of 0 sample_cfg] by (simp add: full_init MAX_CONCURRENT_CONNECTIONS_def)
  from server_refines_service [OF this] show ?thesis by (simp add: List.map_filter_def)
qed

end
