(* ===== verification/ControlPoint.thy ===== *)
theory ControlPoint
  imports Ssdp
begin

section \<open>What the control points of the network know\<close>

text \<open>
  The other side of the SSDP traffic: a control point reads the datagrams it hears and keeps, for each
  unique service name, the location it was told. It may miss any of them. The theorems follow the
  traffic from the steps of the process through the text of its packets to what is listed there.
\<close>

subsection \<open>Listening\<close>

text \<open>The devices a control point lists: service names and their locations.\<close>

type_synonym devices = "bytes \<rightharpoonup> bytes"

definition hear :: "bytes \<Rightarrow> devices \<Rightarrow> devices" where
  "hear packet known =
     (case packet_headers packet of (start, headers) \<Rightarrow>
        (case map_of headers ''USN'' of
           None \<Rightarrow> known
         | Some usn \<Rightarrow>
             if start = ''NOTIFY * HTTP/1.1'' \<and> map_of headers ''NTS'' = Some ''ssdp:byebye''
             then known(usn := None)
             else if start = ''HTTP/1.1 200 OK'' \<or>
                     start = ''NOTIFY * HTTP/1.1'' \<and> map_of headers ''NTS'' = Some ''ssdp:alive''
             then known(usn := map_of headers ''LOCATION'')
             else known))"

definition heard :: "datagram list \<Rightarrow> devices" where
  "heard ds = fold (\<lambda>d. hear (fst d)) ds Map.empty"

lemma heard_snoc [simp]: "heard (ds @ [d]) = hear (fst d) (heard ds)"
  by (simp add: heard_def)

definition usn_of :: "endpoint_info \<Rightarrow> bytes" where
  "usn_of info = info_udn info @ ''::'' @ info_device_type info"

text \<open>Descriptions and dates that stay one header value each.\<close>

definition plain_env :: "xml_parser \<Rightarrow> env \<Rightarrow> bool" where
  "plain_env x e \<longleftrightarrow>
     plain (str_replace (now e) ''+0000'' ''GMT'') \<and>
     (case fetch_endpoint_info x e of
        Inl _ \<Rightarrow> True
      | Inr info \<Rightarrow> plain (info_server info) \<and> plain (info_udn info) \<and> plain (info_device_type info))"

lemma hear_packets:
  assumes "plain (remote_desc_url h)" and "plain_env x e" and "fetch_endpoint_info x e = Inr info"
  shows "hear (to_string (now e) (build_alive h info)) known = known(usn_of info \<mapsto> remote_desc_url h)"
    and "hear (to_string (now e) (build_ok h info)) known = known(usn_of info \<mapsto> remote_desc_url h)"
    and "hear (to_string (now e) (build_byebye h info)) known = known(usn_of info := None)"
proof -
  from assms(2,3) have p: "plain (info_server info)" "plain (info_udn info)" "plain (info_device_type info)"
    "plain (str_replace (now e) ''+0000'' ''GMT'')" by (simp_all add: plain_env_def)
  note read = notify_headers [OF assms(1) p(1-3)] ok_headers [OF assms(1) p]
  show "hear (to_string (now e) (build_alive h info)) known = known(usn_of info \<mapsto> remote_desc_url h)"
    "hear (to_string (now e) (build_ok h info)) known = known(usn_of info \<mapsto> remote_desc_url h)"
    "hear (to_string (now e) (build_byebye h info)) known = known(usn_of info := None)"
    by (simp_all add: hear_def build_alive_def build_ok_def build_byebye_def read usn_of_def del: to_string.simps)
qed

subsection \<open>Where the datagrams come from\<close>

text \<open>The fetches an event makes the process do.\<close>

fun envs_of :: "ssdp_event \<Rightarrow> env set" where
  "envs_of (Announce e) = {e}"
| "envs_of (Datagram r e) = {e}"
| "envs_of (Shutdown (Goodbye outcome)) = set_option outcome"
| "envs_of (Shutdown _) = {}"

definition built_from :: "xml_parser \<Rightarrow> ssdp_manager \<Rightarrow> env \<Rightarrow> datagram \<Rightarrow> bool" where
  "built_from x m e d \<longleftrightarrow>
     (\<exists>info. fetch_endpoint_info x e = Inr info \<and>
        (\<exists>build \<in> {build_alive, build_ok, build_byebye}. fst d = to_string (now e) (build (interactive m) info)))"

lemma sent_in_step:
  assumes "ssdp_step hp x m s ev s'"
  shows "\<exists>ds. sent s' = sent s @ ds \<and> (\<forall>d \<in> set ds. \<exists>e \<in> envs_of ev. built_from x m e d)"
  using assms
proof (cases rule: ssdp_step.cases)
  case (announce e)
  then show ?thesis
    by (auto simp: do_ssdp_alive_def built_from_def dest!: alive.only_to_dest)
next
  case (listen r e ds)
  then show ?thesis
    by (auto simp: listen_round_def built_from_def dest!: okay.only_to_dest
        split: recv.splits parse_outcome.splits if_splits)
next
  case (shutdown ev p ds)
  then show ?thesis
    by (cases "(x, interactive m, shutting_down s, ev)" rule: shutdown_handler.cases)
       (auto simp: built_from_def dest!: byebye.only_to_dest split: sum.splits)
qed auto

lemma sent_in_run:
  assumes "run (ssdp_step hp x m) (main_task_start x m w e0) es s" and "d \<in> set (sent s)"
  shows "\<exists>e \<in> insert e0 (\<Union> (envs_of ` set es)). built_from x m e d"
  using assms
proof (induction arbitrary: d rule: run.induct)
  case run_Nil
  obtain b dest where d: "d = (b, dest)" by (cases d)
  with run_Nil show ?case
    using byebye.only_to_dest [of b dest x "interactive m" e0 SSDP_ADDRESS]
    by (auto simp: main_task_start_def built_from_def split: if_splits)
next
  case (run_snoc es s ev s')
  from sent_in_step [OF run_snoc.hyps(2)] obtain ds where "sent s' = sent s @ ds"
    "\<forall>d \<in> set ds. \<exists>e \<in> envs_of ev. built_from x m e d" by blast
  with run_snoc.IH run_snoc.prems show ?case by fastforce
qed

text \<open>The runs in which every description and date is plain.\<close>

definition plain_run :: "xml_parser \<Rightarrow> ssdp_manager \<Rightarrow> env \<Rightarrow> ssdp_event list \<Rightarrow> bool" where
  "plain_run x m e0 es \<longleftrightarrow>
     plain (remote_desc_url (interactive m)) \<and>
     (\<forall>e \<in> insert e0 (\<Union> (envs_of ` set es)). plain_env x e)"

lemma hear_built:
  assumes "plain (remote_desc_url (interactive m))" and "plain_env x e" and "built_from x m e d"
  shows "\<exists>usn. hear (fst d) known \<in>
    {known(usn \<mapsto> remote_desc_url (interactive m)), known(usn := None)}"
  using assms(3) hear_packets [OF assms(1,2)] by (auto simp: built_from_def)

lemma heard_url:
  assumes "\<forall>d \<in> set ds. \<exists>e. plain_env x e \<and> built_from x m e d"
    and "plain (remote_desc_url (interactive m))"
  shows "heard ds usn \<in> {None, Some (remote_desc_url (interactive m))}"
  using assms(1)
proof (induction ds arbitrary: usn rule: rev_induct)
  case Nil
  then show ?case by (simp add: heard_def)
next
  case (snoc d ds)
  then obtain e where "plain_env x e" "built_from x m e d" by auto
  from hear_built [OF assms(2) this] obtain u where
    "hear (fst d) (heard ds) \<in> {(heard ds)(u \<mapsto> remote_desc_url (interactive m)), (heard ds)(u := None)}"
    by blast
  with snoc.IH [of usn] snoc.prems show ?case by (auto split: if_splits)
qed

subsection \<open>Properties\<close>

text \<open>C6. In every run in which the fetched descriptions and the dates are plain, that is, no field has a
  line end in it or starts with a space, whichever of the process's datagrams a control point hears, in
  order, every device it lists because of them is listed at the URL the manager advertises.\<close>

theorem control_points_list_the_url:
  assumes "run (ssdp_step hp x m) (main_task_start x m wait_mode e0) es s" and "plain_run x m e0 es"
    and "subseq ds (sent s)"
  shows "heard ds usn = None \<or> heard ds usn = Some (remote_desc_url (interactive m))"
proof -
  have "\<exists>e. plain_env x e \<and> built_from x m e d" if "d \<in> set ds" for d
    using sent_in_run [OF assms(1), of d] that assms(2) list_emb_set [OF assms(3)]
    unfolding plain_run_def by blast
  with heard_url [of ds x m usn] assms(2) show ?thesis by (auto simp: plain_run_def)
qed

lemma plain_sample_env: "plain_env reference_xml sample_env"
  using sample_fetch plain_samples
  by (simp add: plain_env_def sample_info_def) (simp add: sample_env_def plain_def str_replace_def)

theorem control_points_list_the_url_witness:
  "\<exists>s. run (ssdp_step reference_httparse reference_xml sample_manager)
       (main_task_start reference_xml sample_manager True sample_env) [Announce sample_env] s \<and>
     length (sent s) = 1 \<and>
     heard (sent s) (usn_of sample_info) \<in> {None, Some (remote_desc_url (interactive sample_manager))}"
proof -
  let ?start = "main_task_start reference_xml sample_manager True sample_env"
  let ?s = "?start\<lparr>sent := sent ?start @ snd (do_ssdp_alive reference_xml (interactive sample_manager) sample_env)\<rparr>"
  have "ssdp_step reference_httparse reference_xml sample_manager ?start (Announce sample_env) ?s"
    by (simp add: ssdp_step_simps main_task_start_def sample_manager_def)
  then have r: "run (ssdp_step reference_httparse reference_xml sample_manager) ?start [Announce sample_env] ?s"
    by (rule run_one)
  have "plain_run reference_xml sample_manager sample_env [Announce sample_env]"
    using plain_sample_env plain_samples(1)
    by (simp add: plain_run_def sample_manager_def interactive_new_def)
  from control_points_list_the_url [OF r this, of "sent ?s" "usn_of sample_info"] r show ?thesis
    using alive.sent [OF sample_fetch]
    by (intro exI [of _ ?s]) (simp add: main_task_start_def do_ssdp_alive_def sample_env_def)
qed






text \<open>The other tasks do not wait for the shutdown: an announcement that follows the goodbye lists the
  device again, at the URL of a process that is gone.\<close>

lemma announcement_after_goodbye:
  assumes "\<not> exited s" and "broadcasting s" and "shutting_down s = Leaving"
    and "fetch_endpoint_info x e = Inr info" and "udp_ok e"
    and "plain_env x e" and "plain (remote_desc_url (interactive m))"
  shows "\<exists>s'. run (ssdp_step hp x m) s [Announce e, Shutdown Exit] s' \<and> exited s' \<and>
    heard (sent s') (usn_of info) = Some (remote_desc_url (interactive m))"
proof -
  let ?d = "(to_string (now e) (build_alive (interactive m) info), SSDP_ADDRESS)"
  let ?s1 = "s\<lparr>sent := sent s @ [?d]\<rparr>"
  let ?s2 = "?s1\<lparr>shutting_down := Exited, exited := True\<rparr>"
  have "ssdp_step hp x m s (Announce e) ?s1"
    using assms(1,2) alive.sent [OF assms(4,5)] by (simp add: ssdp_step_simps do_ssdp_alive_def del: to_string.simps)
  moreover have "ssdp_step hp x m ?s1 (Shutdown Exit) ?s2"
    using assms(1,3) by (simp add: ssdp_step_simps)
  ultimately have "run (ssdp_step hp x m) s [Announce e, Shutdown Exit] ?s2" by (rule run_two)
  with hear_packets(1) [OF assms(7,6,4), of "heard (sent s)"] show ?thesis
    by (intro exI [of _ ?s2]) (simp del: to_string.simps)
qed

lemma search_reply:
  assumes "httparse_ok hp" and "\<not> exited s"
    and "request_ok ''M-SEARCH'' t fs" and "length fs < 16" and "length (http_request ''M-SEARCH'' t fs) \<le> 1024"
    and "request_headers fs ''ST'' \<in>
      Some ` {''urn:schemas-upnp-org:device:MediaServer:1'', ''ssdp:all'', ''upnp:rootdevice''}"
    and "fetch_endpoint_info x e = Inr info" and "udp_ok e"
  shows "ssdp_step hp x m s (Datagram (Received (http_request ''M-SEARCH'' t fs) src) e)
    (s\<lparr>sent := sent s @ [(to_string (now e) (build_ok (interactive m) info), src)]\<rparr>)"
proof -
  have "listen_round hp x (interactive m) (Received (http_request ''M-SEARCH'' t fs) src) e =
      Some [(to_string (now e) (build_ok (interactive m) info), src)]"
    using parse_ssdp_request [OF assms(1,3)] assms(4,6) okay.sent [OF assms(7,8)]
    by (auto simp: listen_round_def recv_whole [OF assms(5)] should_respond_def)
  with assms(2) show ?thesis by (simp add: ssdp_step_simps del: to_string.simps)
qed

text \<open>A line end in a fetched field is printed as it is. What a control point reads of a reply then.\<close>

lemma hear_injected:
  assumes "plain usn" and "plain evil" and "plain dt" and "CR \<notin> set usn" and "CR \<notin> set evil"
    and "plain (str_replace date ''+0000'' ''GMT'')"
  shows "hear (to_string date (Ok location server (usn @ LF # ''LOCATION:'' @ evil @ LF # ''X'') dt n)) known =
    known(usn \<mapsto> evil)"
proof -
  let ?shown = "str_replace date ''+0000'' ''GMT''"
  let ?rest = "''EXT:'' @ CRLF @ ''SERVER: '' @ server @ CRLF @ ''LOCATION:'' @ location @ CRLF @
    ''Content-Length: 0'' @ CRLF @ CRLF"
  have "usn = [] \<or> last usn \<noteq> CR" "evil = [] \<or> last evil \<noteq> CR"
    using assms(4,5) last_in_set by metis+
  then have cut: "strip_cr (''USN:'' @ usn) = ''USN:'' @ usn" "strip_cr (''LOCATION:'' @ evil) = ''LOCATION:'' @ evil"
    by (auto simp: strip_cr_def)
  note ends = plain_LF [OF assms(1)] plain_LF [OF assms(2)] plain_LF [OF assms(3)] plain_LF [OF assms(6)]
    header_reading(2) [of n]
  have "lines (to_string date (Ok location server (usn @ LF # ''LOCATION:'' @ evil @ LF # ''X'') dt n)) =
      [''HTTP/1.1 200 OK'', ''CACHE-CONTROL:max-age='' @ format_usize n, ''DATE: '' @ ?shown, ''ST: '' @ dt,
       ''USN:'' @ usn, ''LOCATION:'' @ evil, ''X::'' @ dt] @ lines ?rest"
    using lines_CRLF [of "''HTTP/1.1 200 OK''"] lines_CRLF [of "''CACHE-CONTROL:max-age='' @ format_usize n"]
      lines_CRLF [of "''DATE: '' @ ?shown"] lines_CRLF [of "''ST: '' @ dt"] lines_line [of "''USN:'' @ usn"]
      lines_line [of "''LOCATION:'' @ evil"] lines_CRLF [of "''X::'' @ dt"] ends cut
    by simp
  note l = this
  have h: "header_of (''USN:'' @ usn) = (''USN'', usn)" "header_of (''LOCATION:'' @ evil) = (''LOCATION'', evil)"
    "header_of (''DATE: '' @ ?shown) = (''DATE'', ?shown)" "header_of (''ST: '' @ dt) = (''ST'', dt)"
    "fst (header_of (''CACHE-CONTROL:max-age='' @ format_usize n)) = ''CACHE-CONTROL''"
    using header_of_split [of "''USN''" usn] header_of_split [of "''LOCATION''" evil]
      header_of_split [of "''DATE''" ?shown] header_of_split [of "''ST''" dt] assms
    by (simp_all add: header_of_def)
  have "lines ?rest = ''EXT:'' # lines (drop 6 ?rest)"
    using lines_CRLF [of "''EXT:''"] by simp
  then show ?thesis
    unfolding hear_def packet_headers_def l
    using h by (cases "header_of (''CACHE-CONTROL:max-age='' @ format_usize n)") simp
qed

text \<open>C35. A description document can take its place at another URL: when the unique name it gives has a
  line end and a \<^verbatim>\<open>LOCATION\<close> line in it, as a name with a line feed may, every reply the process sends to
  a search makes a control point that ends lines there and reads the first of two equal headers list the
  named device at that URL, and not at the manager's. The packets print the fetched fields unescaped.\<close>

theorem udn_lists_foreign_url:
  assumes "ssdp_step hp x m s (Datagram r e) s'" and "sent s' = sent s @ [(reply, dest)]"
    and "fetch_endpoint_info x e = Inr info"
    and "info_udn info = usn @ LF # ''LOCATION:'' @ evil @ LF # ''X''"
    and "plain usn" and "plain evil" and "CR \<notin> set usn" and "CR \<notin> set evil"
    and "plain (info_device_type info)" and "plain (str_replace (now e) ''+0000'' ''GMT'')"
  shows "hear reply known = known(usn \<mapsto> evil)"
proof -
  from assms(1,2) have "listen_round hp x (interactive m) r e = Some [(reply, dest)]"
    by (auto simp: ssdp_step_simps)
  then obtain src where "snd (send_ok x (interactive m) e src) = [(reply, dest)]"
    by (auto simp: listen_round_def split: recv.splits parse_outcome.splits if_splits)
  then have "reply = to_string (now e) (build_ok (interactive m) info)"
    using okay.sends [of x "interactive m" e src] assms(3) by (simp split: if_splits)
  with hear_injected [OF assms(5,6,9,7,8,10)] assms(4) show ?thesis
    by (simp add: build_ok_def del: to_string.simps)
qed

text \<open>Such a document.\<close>

definition forged_markup :: markup where
  "forged_markup =
     Markup [] ''root'' []
       [Markup [] ''device'' []
          [Markup [] ''deviceType'' [] [] ''urn:t'',
           Markup [] ''UDN'' [] [] (''uuid:1::urn:t'' @ LF # ''LOCATION:'' @ ''http://10.6.6.6/'' @ LF # ''X'')] []]
       []"

definition forged_env :: env where
  "forged_env = \<lparr>http = Response None (Some (document False forged_markup)), now = [], udp_ok = True\<rparr>"

theorem udn_lists_foreign_url_witness:
  "\<exists>reply s'. ssdp_step reference_httparse reference_xml sample_manager
      (main_task_start reference_xml sample_manager True sample_env)
      (Datagram (Received (http_request ''M-SEARCH'' ''*'' sample_search) client) forged_env) s' \<and>
    sent s' = [(reply, client)] \<and>
    hear reply Map.empty ''uuid:1::urn:t'' = Some ''http://10.6.6.6/''"
proof -
  let ?start = "main_task_start reference_xml sample_manager True sample_env"
  let ?info = "\<lparr>info_device_type = ''urn:t'',
    info_udn = ''uuid:1::urn:t'' @ LF # ''LOCATION:'' @ ''http://10.6.6.6/'' @ LF # ''X'', info_server = ''DLNAProxy/1.0''\<rparr>"
  have "markup_ok forged_markup" "read_description (tree forged_markup) =
      Some \<lparr>device_of = \<lparr>device_type_of = ''urn:t'', udn_of = info_udn ?info\<rparr>\<rparr>"
    by code_simp+
  then have f: "fetch_endpoint_info reference_xml forged_env = Inr ?info" "udp_ok forged_env"
    by (simp_all add: fetch_endpoint_info_def forged_env_def from_str_document [OF reference_xml_ok])
  have p: "plain ''uuid:1::urn:t''" "plain ''http://10.6.6.6/''" "CR \<notin> set ''uuid:1::urn:t''"
    "CR \<notin> set ''http://10.6.6.6/''" "plain ''urn:t''" "plain (str_replace [] ''+0000'' ''GMT'')"
    by code_simp+
  have search: "length sample_search < 16" "request_headers sample_search ''ST'' \<in>
      Some ` {''urn:schemas-upnp-org:device:MediaServer:1'', ''ssdp:all'', ''upnp:rootdevice''}"
    using sample_search_ok(3) by (simp_all add: sample_search_def)
  have "\<not> exited ?start" "sent ?start = []" by (simp_all add: main_task_start_def)
  note start = this
  note step = search_reply [OF reference_httparse_ok start(1) sample_search_ok(1) search(1) sample_search_ok(2) search(2) f,
      of sample_manager client]
  have "now forged_env = []" by (simp add: forged_env_def)
  with udn_lists_foreign_url [OF step _ f(1), of _ client "''uuid:1::urn:t''" "''http://10.6.6.6/''" Map.empty] p
  have "hear (to_string (now forged_env) (build_ok (interactive sample_manager) ?info)) Map.empty =
      [''uuid:1::urn:t'' \<mapsto> ''http://10.6.6.6/'']"
    by (simp del: to_string.simps)
  with step start(2) show ?thesis
    by (intro exI [of _ "to_string (now forged_env) (build_ok (interactive sample_manager) ?info)"] exI conjI)
       (assumption | simp del: to_string.simps)+
qed

text \<open>C7. Searching finds the server: while the process runs, a control point that searches for the media
  server, for everything or for root devices, with fewer than sixteen headers in at most 1024 bytes, is
  answered, with one datagram, when the description can be fetched and the socket sends, and after
  hearing it lists the device that the description document describes at the URL the manager
  advertises, when no field has a line end in it.\<close>

theorem search_finds_server:
  assumes "httparse_ok hp" and "xml_ok x" and "\<not> exited s"
    and "request_ok ''M-SEARCH'' t fs" and "length fs < 16" and "length (http_request ''M-SEARCH'' t fs) \<le> 1024"
    and "request_headers fs ''ST'' \<in>
      Some ` {''urn:schemas-upnp-org:device:MediaServer:1'', ''ssdp:all'', ''upnp:rootdevice''}"
    and "http e = Response server (Some (document declaration doc))" and "markup_ok doc"
    and "described (tree doc) device udn" and "udp_ok e"
    and "plain_env x e" and "plain (remote_desc_url (interactive m))"
  shows "\<exists>reply s'. ssdp_step hp x m s (Datagram (Received (http_request ''M-SEARCH'' t fs) src) e) s' \<and>
    sent s' = sent s @ [(reply, src)] \<and> \<not> exited s' \<and>
    hear reply known (udn @ ''::'' @ device) = Some (remote_desc_url (interactive m))"
proof -
  obtain info where info: "fetch_endpoint_info x e = Inr info" "usn_of info = udn @ ''::'' @ device"
    using fetch_document [OF assms(2,9,8,10)] by (auto simp: usn_of_def)
  from search_reply [OF assms(1,3-7) info(1) assms(11)] assms(3) hear_packets(2) [OF assms(13,12) info(1), of known] info(2)
  show ?thesis
    by (intro exI [of _ "to_string (now e) (build_ok (interactive m) info)"]
        exI [of _ "s\<lparr>sent := sent s @ [(to_string (now e) (build_ok (interactive m) info), src)]\<rparr>"])
      (simp del: to_string.simps)
qed

theorem search_finds_server_witness:
  "\<exists>reply s'. ssdp_step reference_httparse reference_xml sample_manager
      (main_task_start reference_xml sample_manager True sample_env)
      (Datagram (Received (http_request ''M-SEARCH'' ''*'' sample_search) client) sample_env) s' \<and>
    sent s' = [(reply, client)] \<and>
    hear reply Map.empty (''uuid:1'' @ ''::'' @ ''urn:t'') = Some ''http://10.0.0.1:8200/d.xml''"
proof -
  have search: "length sample_search < 16" "request_headers sample_search ''ST'' \<in>
      Some ` {''urn:schemas-upnp-org:device:MediaServer:1'', ''ssdp:all'', ''upnp:rootdevice''}"
    using sample_search_ok(3) by (simp_all add: sample_search_def)
  have doc: "http sample_env = Response (Some ''Srv/1.0'') (Some (document True sample_markup))"
    "described (tree sample_markup) ''urn:t'' ''uuid:1''"
    using sample_description by (simp_all add: sample_env_def read_description_iff)
  have url: "plain (remote_desc_url (interactive sample_manager))"
    "remote_desc_url (interactive sample_manager) = ''http://10.0.0.1:8200/d.xml''"
    using plain_samples(1) by (simp_all add: sample_manager_def interactive_new_def)
  have start: "\<not> exited (main_task_start reference_xml sample_manager True sample_env)"
    "sent (main_task_start reference_xml sample_manager True sample_env) = []"
    by (simp_all add: main_task_start_def)
  from search_finds_server [OF reference_httparse_ok reference_xml_ok start(1) sample_search_ok(1) search(1)
      sample_search_ok(2) search(2) doc(1) sample_markup_ok doc(2) sample_fetch(2) plain_sample_env url(1),
      where src = client and known = Map.empty]
  show ?thesis unfolding start(2) url(2) append_Nil by blast
qed

end
