(* ===== verification/Spec2Isabelle.thy ===== *)
theory Spec2Isabelle
  imports Process SourceTests Service ControlPoint
begin

text \<open>
  Verification of dlna-proxy (Rust).

  dlna-proxy makes a DLNA media server of another network visible in the local one. It fetches the
  server's UPnP description, announces the server by SSDP multicast and answers searches for it; on
  demand it also proxies the server's HTTP connections and rewrites the server's URLs in the texts it
  forwards, so that control points stay behind the proxy.

  THE PARTS AND THEIR THEORIES

  \<^item> The HTTP proxy, \<^verbatim>\<open>src/src/tcp_proxy.rs\<close>. \<open>ByteStream\<close>: the two streams of a forwarding task as a
    record \<open>conn\<close> (the segments still to arrive, how the stream ends, the bytes delivered, and whether the
    receiver reads, or takes so many bytes more and then stalls or is gone), the operations of tokio on
    it, \<open>read_line_bytes\<close>. \<open>Chunked\<close>:
    \<open>parse_chunk_size\<close>, \<open>pass_through_chunked\<close>, \<open>read_chunked_body\<close>, \<open>write_chunked_body\<close>. \<open>Headers\<close>:
    the head loop of \<open>proxy_response_with_rewrite\<close>, \<open>should_rewrite_content\<close>, \<open>update_content_length\<close>.
    \<open>Proxy\<close>: \<open>proxy_response_with_rewrite\<close>. \<open>Listen\<close>: \<open>TCPProxy::new\<close> and \<open>start\<close>, \<open>listen_loop\<close> as the
    step relation \<open>listen_step\<close>, \<open>handle_conn\<close>. \<open>Server\<close>: the accept loop with all the connections it
    handles, on which bytes and ends of streams arrive one by one and receivers stop reading, go on or go
    away, as the step relation \<open>server_step\<close>. \<open>Ending\<close>: every operation ends on a stream that has ended
    and whose receiver does not stall, so permits come back; a receiver that stalls keeps them. \<open>Text\<close>:
    the strings the proxy builds are valid UTF-8. \<open>Service\<close>: an abstract specification of the proxy without streams,
    semaphore or tasks, and that \<open>server_step\<close> refines it.
  \<^item> SSDP, \<^verbatim>\<open>src/src/ssdp/\<close>. \<open>Packet\<close> (\<^verbatim>\<open>packet.rs\<close>): the three packets and their text. \<open>Description\<close>
    (\<^verbatim>\<open>utils.rs\<close>): the structs of the description, read from an element tree, and description documents.
    \<open>Interactive\<close> (\<^verbatim>\<open>utils.rs\<close>): fetching the description and sending packets. \<open>Request\<close>: HTTP requests
    on the wire. \<open>Listener\<close> (\<^verbatim>\<open>listener.rs\<close>): \<open>parse_ssdp\<close> and the listening task. \<open>Broadcast\<close>
    (\<^verbatim>\<open>broadcast.rs\<close>): the announcing task and the shutdown handler. \<open>Ssdp\<close> (\<^verbatim>\<open>mod.rs\<close>): the manager,
    its sockets, and \<open>main_task\<close> with its tasks as the step relation \<open>ssdp_step\<close>: the announcing task and
    the listener take a round per step, the shutdown handler a step from one of its waits to the next
    (the signal, the goodbye, the exit), so the other tasks can go on in between. \<open>ControlPoint\<close>: the
    other side, what those who hear the datagrams list.
  \<^item> The program. \<open>Config\<close> (\<^verbatim>\<open>config.rs\<close>, and the options of \<^verbatim>\<open>main.rs\<close>): \<open>get_config\<close>,
    \<open>sockaddr_from_url\<close>. \<open>App\<close> (\<^verbatim>\<open>main.rs\<close>): \<open>main\<close>. \<open>Process\<close>: what \<open>main\<close> starts, running side by
    side. \<open>SourceTests\<close> and \<open>ParserTests\<close> are not about the program but evidence for the model: it passes
    the unit tests of \<^verbatim>\<open>tcp_proxy.rs\<close>, \<^verbatim>\<open>packet.rs\<close>, \<^verbatim>\<open>listener.rs\<close> and \<^verbatim>\<open>utils.rs\<close>.
  \<^item> The language and its library, as far as the source uses them. \<open>Utf8\<close>: decoding, strict and lossy.
    \<open>RustStr\<close>: lines, trimming, case, search and replacement on strings. \<open>RustNum\<close>: printing and parsing
    of unsigned numbers. \<open>NetAddr\<close>, \<open>AddrRoundtrip\<close>: socket addresses, their printed form and its
    parser.
  \<^item> \<open>Prelude\<close>: shared lemmas and collections. \<open>Steps\<close>: labelled step relations, runs, the locales
    \<open>invariant_system\<close> and \<open>refinement\<close>, and two step relations interleaved.

  HOW STATE AND EFFECTS ARE REPRESENTED

  Strings and byte buffers are lists of characters read as bytes. An operation on a stream takes a
  \<open>conn\<close> and returns a result or a way to stop (an I/O error, a panic, waiting for bytes that have not
  come or for a receiver that does not read) and the \<open>conn\<close> after it; loops are functions with a measure on the bytes still to come, so no
  fuel is used anywhere and every function is total. A task that would wait for ever has the outcome
  \<open>Suspended\<close>. \<open>usize\<close> is a number below \<open>2 ^ 64\<close>; where the code can wrap, the model wraps (release
  profile). Concurrent parts are step relations over records with one event for everything the
  environment or another task can do; a property of the program is one of all runs.

  WHAT THE LEMMAS SHOW

  \<^item> The locale \<open>stream_op\<close> (\<open>ByteStream\<close>) is the contract of every operation on streams: it does not
    depend on how the bytes are segmented, delivers only more when more arrives, and delivers the first
    k bytes to a receiver that takes k. It is interpreted on every reading and forwarding routine, up to
    the whole response loop, and the proofs about them run on unsegmented input.
  \<^item> \<open>Chunked\<close>, \<open>Headers\<close> and \<open>Proxy\<close> specify responses by their parts (\<open>response\<close>, \<open>resp_wire\<close>,
    \<open>resp_ok\<close>) and what the client must receive for one (\<open>proxied\<close>), and show that the code's loop
    implements this for every sequence of responses; further what happens to bodies that are cut short
    (withheld inside a chunk or short of their length, but delivered as complete when they end between
    two chunks), too large, unframed or empty.
  \<^item> \<open>Listen\<close> and \<open>Server\<close>: invariants of the accept loop by \<open>invariant_system\<close>; in every interleaving of
    the connections, what each has delivered, when a handler ends, and that idle clients, and peers that
    stop reading, can hold all the permits. \<open>Service\<close>: every run is one of the abstract service.
  \<^item> \<open>Packet\<close> to \<open>Ssdp\<close>: packets read back by their recipients, which packets are ever sent in any
    interleaving of the tasks, when, to whom, and the order of goodbyes; announcements always overlap;
    what is announced for a description document, and what happens to every complete request.
    \<open>ControlPoint\<close>: a control point, whatever it misses, lists the device at the advertised URL only, and
    no more once it hears the goodbye of a shutdown. Both are for descriptions without line ends in their
    fields, which the packets print as they are: a unique name with a line end can list a device
    elsewhere. And an announcement that the other tasks send after the goodbye lists it again.
  \<^item> \<open>Config\<close>, \<open>App\<close> and \<open>Process\<close>: where each setting comes from, which configurations are refused, and
    that a control point which follows an announcement is served the configured server's responses
    through the proxy.

  PARAMETERS

  Code outside the repository is a parameter, with its documented contract where one is needed: the HTTP
  request parser (\<^verbatim>\<open>httparse\<close>, contract \<open>httparse_ok\<close>) and the XML parser (\<^verbatim>\<open>quick_xml\<close>, contract
  \<open>xml_ok\<close>), each with a reference parser that meets it, the TOML deserialiser, the HTTP client, the URL
  type, the date printed in a reply, the command-line parser, the name resolver and the operating
  system's calls (as outcomes). The contract of the XML parser is about documents of elements with
  attributes and with text or elements in them; nothing is claimed of comments, references,
  self-closing elements, prefixed names, CDATA and doctypes. An HTTP request that never completes, which
  no timeout prevents once it is connected, is not an outcome: the task that made it takes no further
  step, so what is claimed of a step is of fetches that complete. Timers follow tokio's documented
  schedule of \<^verbatim>\<open>interval\<close>.

  NOT MODELLED

  Logging and its set-up (\<open>init_logging\<close>): no effect on the behaviour. The coupling of the two
  directions of one connection by the peers (a half-closed direction makes a peer close the other) is
  left to the environment, which may end each stream as it likes. IPv6 flow labels are not kept. The
  signal handling of systems other than Unix and the multicast set-up of systems other than Linux are
  compiled only there.
\<close>

end
